theory Spec2Isabelle
  imports Main
begin


section \<open>JavaScript strings\<close>

text \<open>
  A JavaScript string is a sequence of UTF-16 code units.  The source uses characters
  outside ASCII (the en dash U+2013, the em dash U+2014, the sparkles sign U+2728), so a
  string is modelled as the list of its code units, not as a list of bytes.
\<close>

type_synonym jsstring = "nat list"

definition lit :: "string \<Rightarrow> jsstring" where
  "lit s = map of_char s"

text \<open>White space as matched by \<^verbatim>\<open>\s\<close> and removed by \<^verbatim>\<open>String.prototype.trim\<close>.\<close>

definition is_space :: "nat \<Rightarrow> bool" where
  "is_space c \<longleftrightarrow>
     c \<in> set [9, 10, 11, 12, 13, 32, 160, 5760, 8232, 8233, 8239, 8287, 12288, 65279]
     \<or> (8192 \<le> c \<and> c \<le> 8202)"

text \<open>Word characters as seen by \<^verbatim>\<open>\b\<close> (no unicode flag): letters, digits, underscore.\<close>

definition is_word :: "nat \<Rightarrow> bool" where
  "is_word c \<longleftrightarrow> (48 \<le> c \<and> c \<le> 57) \<or> (65 \<le> c \<and> c \<le> 90) \<or> c = 95 \<or> (97 \<le> c \<and> c \<le> 122)"

definition trim :: "jsstring \<Rightarrow> jsstring" where
  "trim s = rev (dropWhile is_space (rev (dropWhile is_space s)))"

fun is_prefix :: "jsstring \<Rightarrow> jsstring \<Rightarrow> bool" where
  "is_prefix [] s = True"
| "is_prefix (p # ps) [] = False"
| "is_prefix (p # ps) (x # s) = (p = x \<and> is_prefix ps s)"

text \<open>\<^verbatim>\<open>s.includes(p)\<close>\<close>

fun str_includes :: "jsstring \<Rightarrow> jsstring \<Rightarrow> bool" where
  "str_includes [] p = (p = [])"
| "str_includes (x # s) p = (is_prefix p (x # s) \<or> str_includes s p)"

section \<open>Regular expressions\<close>

text \<open>
  The regular expressions of the source are written as values of the type \<open>regex\<close> and run
  by a backtracking matcher that follows the ECMAScript semantics: alternatives are tried
  left to right, quantifiers are greedy, the search tries each start position from the
  left.  A position of the subject is a pair of the code units before it (nearest first)
  and the code units after it.  Every starred expression of the source is a character
  class, so the star is taken over classes.
\<close>

datatype cc = OneOf "nat list" | NoneOf "nat list" | Space

datatype regex =
    C cc
  | Str "nat list"
  | Seq regex regex
  | Alt regex regex
  | Opt regex
  | StarC cc
  | WordB
  | Bol
  | Eol

text \<open>
  With the flag \<^verbatim>\<open>i\<close> two code units match when they canonicalise to the same unit.  The
  patterns of the source hold ASCII letters and signs without case only, for which
  canonicalisation is ASCII upper-casing.
\<close>

definition canon :: "bool \<Rightarrow> nat \<Rightarrow> nat" where
  "canon ic c = (if ic \<and> 97 \<le> c \<and> c \<le> 122 then c - 32 else c)"

fun cc_match :: "bool \<Rightarrow> cc \<Rightarrow> nat \<Rightarrow> bool" where
  "cc_match ic (OneOf cs) x = (canon ic x \<in> set (map (canon ic) cs))"
| "cc_match ic (NoneOf cs) x = (canon ic x \<notin> set (map (canon ic) cs))"
| "cc_match ic Space x = is_space x"

type_synonym cursor = "nat list \<times> nat list"

fun str_match :: "bool \<Rightarrow> nat list \<Rightarrow> cursor \<Rightarrow> cursor list" where
  "str_match ic [] p = [p]"
| "str_match ic (c # cs) (l, []) = []"
| "str_match ic (c # cs) (l, x # s) =
     (if canon ic c = canon ic x then str_match ic cs (x # l, s) else [])"

fun star_match :: "bool \<Rightarrow> cc \<Rightarrow> nat list \<Rightarrow> nat list \<Rightarrow> cursor list" where
  "star_match ic c l [] = [(l, [])]"
| "star_match ic c l (x # s) =
     (if cc_match ic c x then star_match ic c (x # l) s @ [(l, x # s)] else [(l, x # s)])"

definition at_boundary :: "cursor \<Rightarrow> bool" where
  "at_boundary p =
     ((case fst p of [] \<Rightarrow> False | a # _ \<Rightarrow> is_word a) \<noteq> (case snd p of [] \<Rightarrow> False | b # _ \<Rightarrow> is_word b))"

text \<open>The end positions of the matches of an expression at a position, in priority order.\<close>

fun rmatch :: "bool \<Rightarrow> regex \<Rightarrow> cursor \<Rightarrow> cursor list" where
  "rmatch ic (C c) p =
     (case snd p of [] \<Rightarrow> [] | x # s \<Rightarrow> if cc_match ic c x then [(x # fst p, s)] else [])"
| "rmatch ic (Str cs) p = str_match ic cs p"
| "rmatch ic (Seq a b) p = concat (map (rmatch ic b) (rmatch ic a p))"
| "rmatch ic (Alt a b) p = rmatch ic a p @ rmatch ic b p"
| "rmatch ic (Opt a) p = rmatch ic a p @ [p]"
| "rmatch ic (StarC c) p = star_match ic c (fst p) (snd p)"
| "rmatch ic WordB p = (if at_boundary p then [p] else [])"
| "rmatch ic Bol p = (if fst p = [] then [p] else [])"
| "rmatch ic Eol p = (if snd p = [] then [p] else [])"

text \<open>The first match at or after a position: its start and its end.\<close>

fun rx_search :: "bool \<Rightarrow> regex \<Rightarrow> nat list \<Rightarrow> nat list \<Rightarrow> (cursor \<times> cursor) option" where
  "rx_search ic r l [] = (case rmatch ic r (l, []) of [] \<Rightarrow> None | e # _ \<Rightarrow> Some ((l, []), e))"
| "rx_search ic r l (x # s) =
     (case rmatch ic r (l, x # s) of [] \<Rightarrow> rx_search ic r (x # l) s | e # _ \<Rightarrow> Some ((l, x # s), e))"

text \<open>\<^verbatim>\<open>re.test(s)\<close> for a regular expression without the global flag.\<close>

definition rx_test :: "bool \<Rightarrow> regex \<Rightarrow> jsstring \<Rightarrow> bool" where
  "rx_test ic r s = (rx_search ic r [] s \<noteq> None)"

text \<open>The text of the first match, \<^verbatim>\<open>s.match(re)[0]\<close>; \<open>None\<close> is the \<^verbatim>\<open>null\<close> of no match.\<close>

definition rx_exec :: "bool \<Rightarrow> regex \<Rightarrow> jsstring \<Rightarrow> jsstring option" where
  "rx_exec ic r s =
     (case rx_search ic r [] s of None \<Rightarrow> None
      | Some (b, e) \<Rightarrow> Some (take (length (snd b) - length (snd e)) (snd b)))"

text \<open>\<^verbatim>\<open>s.replace(re, '')\<close> without the global flag: the first match is removed.\<close>

definition rx_remove_first :: "bool \<Rightarrow> regex \<Rightarrow> jsstring \<Rightarrow> jsstring" where
  "rx_remove_first ic r s =
     (case rx_search ic r [] s of None \<Rightarrow> s | Some (b, e) \<Rightarrow> rev (fst b) @ snd e)"

text \<open>
  \<^verbatim>\<open>s.replace(re, rep)\<close> with the global flag.  The third argument counts the code units
  of the current match still to be skipped; after an empty match the next code unit is
  copied and the search goes on behind it.
\<close>

fun rx_replace_from :: "bool \<Rightarrow> regex \<Rightarrow> jsstring \<Rightarrow> nat list \<Rightarrow> nat \<Rightarrow> nat list \<Rightarrow> jsstring" where
  "rx_replace_from ic r rep l k [] =
     (if k = 0 \<and> rmatch ic r (l, []) \<noteq> [] then rep else [])"
| "rx_replace_from ic r rep l k (x # s) =
     (if k > 0 then rx_replace_from ic r rep (x # l) (k - 1) s
      else (case rmatch ic r (l, x # s) of
              [] \<Rightarrow> x # rx_replace_from ic r rep (x # l) 0 s
            | e # _ \<Rightarrow>
                (let n = Suc (length s) - length (snd e)
                 in if n = 0 then rep @ x # rx_replace_from ic r rep (x # l) 0 s
                    else rep @ rx_replace_from ic r rep (x # l) (n - 1) s)))"

definition rx_replace_all :: "bool \<Rightarrow> regex \<Rightarrow> jsstring \<Rightarrow> jsstring \<Rightarrow> jsstring" where
  "rx_replace_all ic r rep s = rx_replace_from ic r rep [] 0 s"

definition PlusC :: "cc \<Rightarrow> regex" where
  "PlusC c = Seq (C c) (StarC c)"

text \<open>An alternative of literal words, \<^verbatim>\<open>(w1|w2|...)\<close>.\<close>

fun words :: "string list \<Rightarrow> regex" where
  "words [] = C (OneOf [])"
| "words [w] = Str (lit w)"
| "words (w # ws) = Alt (Str (lit w)) (words ws)"

fun seqs :: "regex list \<Rightarrow> regex" where
  "seqs [] = Str []"
| "seqs [r] = r"
| "seqs (r # rs) = Seq r (seqs rs)"

section \<open>The event classifier\<close>

text \<open>
  The class \<^verbatim>\<open>EventProcessor\<close> of \<^verbatim>\<open>tests/analytics-filtering.test.js\<close>.  A title that is
  missing or not a string is \<open>None\<close>.
\<close>

definition seqMarker :: regex where
  "seqMarker =
     Opt (seqs [StarC Space, Opt (C (OneOf [45, 8211])), StarC Space,
                words [''Start'', ''1st'', ''2nd'', ''3rd'', ''Last'']])"

text \<open>\<^verbatim>\<open>/\b(MG|M&G|Meet\s*&\s*Greet)\b/i\<close>\<close>

definition meetAndGreet :: regex where
  "meetAndGreet =
     seqs [WordB,
           Alt (Str (lit ''MG'')) (Alt (Str (lit ''M&G''))
             (seqs [Str (lit ''Meet''), StarC Space, Str (lit ''&''), StarC Space, Str (lit ''Greet'')])),
           WordB]"

text \<open>\<^verbatim>\<open>/\b(15|20|30|45|60)\b(?:\s*[-\<endash>]?\s*(Start|1st|2nd|3rd|Last))?$/i\<close>\<close>

definition minutesSuffix :: regex where
  "minutesSuffix = seqs [WordB, words [''15'', ''20'', ''30'', ''45'', ''60''], WordB, seqMarker, Eol]"

text \<open>\<^verbatim>\<open>/\b(HS|Housesit)\b(?:\s*[-\<endash>]?\s*(Start|1st|2nd|3rd|Last))?$/i\<close>\<close>

definition houseSitSuffix :: regex where
  "houseSitSuffix = seqs [WordB, words [''HS'', ''Housesit''], WordB, seqMarker, Eol]"

text \<open>\<^verbatim>\<open>/\b(nail\s*trim)\b/i\<close>\<close>

definition nailTrim :: regex where
  "nailTrim = seqs [WordB, Str (lit ''nail''), StarC Space, Str (lit ''trim''), WordB]"

text \<open>\<^verbatim>\<open>/^\s*\<sparkles>\s*off\s*\<sparkles>|^\s*off\s*[-\<endash>]/i\<close>, the sparkles sign being the code unit 10024.\<close>

definition offDay :: regex where
  "offDay =
     Alt (seqs [Bol, StarC Space, Str [10024], StarC Space, Str (lit ''off''), StarC Space, Str [10024]])
         (seqs [Bol, StarC Space, Str (lit ''off''), StarC Space, C (OneOf [45, 8211])])"

definition personalKeywords :: regex where
  "personalKeywords =
     seqs [WordB, words [''lunch'', ''appointment with'', ''therapy'', ''birthday'', ''anniversary'', ''shower''], WordB]"

definition medicalPersonal :: regex where
  "medicalPersonal =
     seqs [WordB, words [''doctor'', ''dentist'', ''massage'', ''nails'', ''haircut'', ''tattoo'', ''yoga'',
                         ''acupuncture''], WordB]"

definition household :: regex where
  "household = seqs [WordB, words [''house clean'', ''kroger'', ''grocery''], WordB]"

definition socialBusiness :: regex where
  "socialBusiness = seqs [WordB, words [''momentum'', ''meeting with'', ''webinar''], WordB]"

definition personalEventPatterns :: "regex list" where
  "personalEventPatterns = [offDay, personalKeywords, medicalPersonal, household, socialBusiness]"

text \<open>\<^verbatim>\<open>/\([^)]*\)/g\<close>, replaced by the empty string.\<close>

definition parenGroup :: regex where
  "parenGroup = seqs [Str [40], StarC (NoneOf [41]), Str [41]]"

definition cleanTitle :: "jsstring option \<Rightarrow> jsstring" where
  "cleanTitle title =
     (case title of None \<Rightarrow> []
      | Some t \<Rightarrow> if t = [] then [] else trim (rx_replace_all False parenGroup [] t))"

definition isDefinitelyPersonal :: "jsstring option \<Rightarrow> bool" where
  "isDefinitelyPersonal title =
     (case title of None \<Rightarrow> False
      | Some t \<Rightarrow> if t = [] then False
                 else (let trimmedTitle = trim t
                       in list_ex (\<lambda>pattern. rx_test True pattern trimmedTitle) personalEventPatterns))"

text \<open>
  The argument of \<^verbatim>\<open>isWorkEvent\<close> is a string, or an object whose \<^verbatim>\<open>title\<close> is read, or
  \<^verbatim>\<open>null\<close>/\<^verbatim>\<open>undefined\<close>.
\<close>

datatype titleOrEvent = TitleArg jsstring | EventArg "jsstring option" | Nullish

definition isWorkEvent :: "titleOrEvent \<Rightarrow> bool" where
  "isWorkEvent titleOrEvent =
     (let title = (case titleOrEvent of TitleArg t \<Rightarrow> Some t | EventArg t \<Rightarrow> t | Nullish \<Rightarrow> None)
      in case title of None \<Rightarrow> False
         | Some t \<Rightarrow>
             if t = [] then False
             else (let trimmedTitle = trim t
                   in if isDefinitelyPersonal (Some trimmedTitle) then False
                      else (let cleanedTitle = cleanTitle (Some trimmedTitle)
                            in if rx_test True meetAndGreet cleanedTitle then True
                               else if rx_test True minutesSuffix cleanedTitle then True
                               else if rx_test True houseSitSuffix cleanedTitle then True
                               else if rx_test True nailTrim cleanedTitle then True
                               else False)))"

text \<open>
  The mock processor of \<^verbatim>\<open>tests/event-filtering.test.js\<close>.  Its personal patterns are
  \<^verbatim>\<open>/^lunch$/i\<close>, \<^verbatim>\<open>/^(S|G)?\s*off\s*(S|G)?$/i\<close> with \<^verbatim>\<open>S\<close> the sparkles sign (code unit 10024)
  and \<^verbatim>\<open>G\<close> the glowing star (the surrogate pair 55356, 57119), \<^verbatim>\<open>/\bappointment\b/i\<close>,
  \<^verbatim>\<open>/\btherapy\b/i\<close>, \<^verbatim>\<open>/\bhouse\s*clean/i\<close>, \<^verbatim>\<open>/\bmomentum\b/i\<close>, \<^verbatim>\<open>/\bmeeting\s+with\b/i\<close>,
  \<^verbatim>\<open>/\btattoo\b/i\<close>, \<^verbatim>\<open>/\bmassage\b/i\<close> and \<^verbatim>\<open>/\byoga\b/i\<close>.
\<close>

definition starSign :: regex where
  "starSign = Opt (Alt (Str [10024]) (Str [55356, 57119]))"

definition processor_personalEventPatterns :: "regex list" where
  "processor_personalEventPatterns =
     [seqs [Bol, Str (lit ''lunch''), Eol],
      seqs [Bol, starSign, StarC Space, Str (lit ''off''), StarC Space, starSign, Eol],
      seqs [WordB, Str (lit ''appointment''), WordB],
      seqs [WordB, Str (lit ''therapy''), WordB],
      seqs [WordB, Str (lit ''house''), StarC Space, Str (lit ''clean'')],
      seqs [WordB, Str (lit ''momentum''), WordB],
      seqs [WordB, Str (lit ''meeting''), PlusC Space, Str (lit ''with''), WordB],
      seqs [WordB, Str (lit ''tattoo''), WordB],
      seqs [WordB, Str (lit ''massage''), WordB],
      seqs [WordB, Str (lit ''yoga''), WordB]]"

definition processor_isPersonalEvent :: "jsstring option \<Rightarrow> bool" where
  "processor_isPersonalEvent ttl =
     (case ttl of None \<Rightarrow> False
      | Some t \<Rightarrow> if t = [] then False
                 else list_ex (\<lambda>pattern. rx_test True pattern t) processor_personalEventPatterns)"

text \<open>\<^verbatim>\<open>/\s*\([^)]*\)\s*/g\<close>, replaced by one space.\<close>

definition spacedParenGroup :: regex where
  "spacedParenGroup = seqs [StarC Space, Str [40], StarC (NoneOf [41]), Str [41], StarC Space]"

definition processor_isWorkEvent :: "jsstring option \<Rightarrow> bool" where
  "processor_isWorkEvent ttl =
     (case ttl of None \<Rightarrow> False
      | Some t \<Rightarrow>
          if t = [] then False
          else if processor_isPersonalEvent (Some t) then False
          else (let cleanTitle = trim (rx_replace_all False spacedParenGroup (lit '' '') t)
                in rx_test True meetAndGreet cleanTitle
                   \<or> rx_test True minutesSuffix cleanTitle
                   \<or> rx_test True houseSitSuffix cleanTitle))"

section \<open>Events, the event processor and the runtime\<close>

text \<open>
  A \<^verbatim>\<open>Date\<close> object holds a time value (milliseconds since the epoch) or is an Invalid
  Date, whose time value is \<^verbatim>\<open>NaN\<close>.  The numbers that the exporter computes from dates are
  integers or \<^verbatim>\<open>NaN\<close>; \<open>None\<close> is \<^verbatim>\<open>NaN\<close>.
\<close>

datatype date = Date int | InvalidDate

type_synonym number = "int option"

text \<open>\<^verbatim>\<open>d.getTime()\<close>, also the value of a date in a subtraction or a comparison.\<close>

definition getTime :: "date \<Rightarrow> number" where
  "getTime d = (case d of Date t \<Rightarrow> Some t | InvalidDate \<Rightarrow> None)"

text \<open>A field of a date, such as \<^verbatim>\<open>d.getMonth()\<close>: \<^verbatim>\<open>NaN\<close> for an Invalid Date.\<close>

definition dateField :: "(int \<Rightarrow> int) \<Rightarrow> date \<Rightarrow> number" where
  "dateField f d = (case d of Date t \<Rightarrow> Some (f t) | InvalidDate \<Rightarrow> None)"

text \<open>Arithmetic and comparison: an operation on \<^verbatim>\<open>NaN\<close> gives \<^verbatim>\<open>NaN\<close>, a comparison with \<^verbatim>\<open>NaN\<close> is false.\<close>

definition num_add :: "number \<Rightarrow> number \<Rightarrow> number" where
  "num_add a b = (case (a, b) of (Some x, Some y) \<Rightarrow> Some (x + y) | _ \<Rightarrow> None)"

definition num_sub :: "number \<Rightarrow> number \<Rightarrow> number" where
  "num_sub a b = (case (a, b) of (Some x, Some y) \<Rightarrow> Some (x - y) | _ \<Rightarrow> None)"

definition num_mul :: "number \<Rightarrow> number \<Rightarrow> number" where
  "num_mul a b = (case (a, b) of (Some x, Some y) \<Rightarrow> Some (x * y) | _ \<Rightarrow> None)"

definition num_neg :: "number \<Rightarrow> number" where
  "num_neg a = (case a of Some x \<Rightarrow> Some (- x) | None \<Rightarrow> None)"

text \<open>\<^verbatim>\<open>a === b\<close>, \<^verbatim>\<open>a < b\<close>, \<^verbatim>\<open>a > b\<close>, \<^verbatim>\<open>a >= b\<close> on numbers.\<close>

definition num_eq :: "number \<Rightarrow> number \<Rightarrow> bool" where
  "num_eq a b = (case (a, b) of (Some x, Some y) \<Rightarrow> x = y | _ \<Rightarrow> False)"

definition num_lt :: "number \<Rightarrow> number \<Rightarrow> bool" where
  "num_lt a b = (case (a, b) of (Some x, Some y) \<Rightarrow> x < y | _ \<Rightarrow> False)"

definition num_gt :: "number \<Rightarrow> number \<Rightarrow> bool" where
  "num_gt a b = (case (a, b) of (Some x, Some y) \<Rightarrow> x > y | _ \<Rightarrow> False)"

definition num_ge :: "number \<Rightarrow> number \<Rightarrow> bool" where
  "num_ge a b = (case (a, b) of (Some x, Some y) \<Rightarrow> x \<ge> y | _ \<Rightarrow> False)"

text \<open>
  An event as the exporter reads it.  \<open>start\<close> and \<open>endTime\<close> are the dates
  \<^verbatim>\<open>new Date(event.start)\<close> and \<^verbatim>\<open>new Date(event.end)\<close>, Invalid Date when the field is
  missing or cannot be read as a date.  A field that is \<^verbatim>\<open>undefined\<close> is \<open>None\<close>.
\<close>

record event =
  title :: "jsstring option"
  start :: date
  endTime :: date
  location :: "jsstring option"
  etype :: "jsstring option"

text \<open>
  The exporter receives its event processor through the constructor.  Of the processor it
  calls \<^verbatim>\<open>isOvernightEvent\<close>, \<^verbatim>\<open>isWorkEvent\<close> and \<^verbatim>\<open>workEventPatterns.meetAndGreet.test\<close>.
\<close>

record eventProcessor =
  ep_isOvernightEvent :: "event \<Rightarrow> bool"
  ep_isWorkEvent :: "event \<Rightarrow> bool"
  ep_meetAndGreet :: "jsstring \<Rightarrow> bool"

text \<open>
  What the exporter takes from the JavaScript runtime: the local-time fields of a time
  value, the constructor \<^verbatim>\<open>new Date(year, month, day)\<close>, \<^verbatim>\<open>setDate\<close> followed by
  \<^verbatim>\<open>setHours(0, 0, 0, 0)\<close>, the collation of \<^verbatim>\<open>localeCompare\<close>, the Unicode lower-casing
  of \<^verbatim>\<open>toLowerCase\<close> (which may change the length of a string), and the parsing of a group
  label back into a date.  They depend on the time zone, the locale and the Unicode tables
  of the host, so they are parameters.
\<close>

record runtime =
  getFullYear :: "int \<Rightarrow> int"
  getMonth :: "int \<Rightarrow> int"
  getDate :: "int \<Rightarrow> int"
  getDay :: "int \<Rightarrow> int"
  getHours :: "int \<Rightarrow> int"
  getMinutes :: "int \<Rightarrow> int"
  newDateYMD :: "int \<Rightarrow> int \<Rightarrow> int \<Rightarrow> date"
  setDateMidnight :: "int \<Rightarrow> int \<Rightarrow> date"
  localeCompare :: "jsstring \<Rightarrow> jsstring \<Rightarrow> int"
  toLowerCase :: "jsstring \<Rightarrow> jsstring"
  parseGroupKeyToDate :: "jsstring \<Rightarrow> jsstring \<Rightarrow> date"

section \<open>Numbers as strings\<close>

fun digits :: "nat \<Rightarrow> jsstring" where
  "digits n = (if n < 10 then [48 + n] else digits (n div 10) @ [48 + n mod 10])"

declare digits.simps [simp del]

text \<open>\<^verbatim>\<open>String(n)\<close> for an integer \<open>n\<close>.\<close>

definition String :: "int \<Rightarrow> jsstring" where
  "String n = (if n < 0 then 45 # digits (nat (- n)) else digits (nat n))"

text \<open>\<^verbatim>\<open>String(n)\<close> for a number that may be \<^verbatim>\<open>NaN\<close>, also its value in a template string.\<close>

definition numString :: "number \<Rightarrow> jsstring" where
  "numString n = (case n of Some x \<Rightarrow> String x | None \<Rightarrow> lit ''NaN'')"

text \<open>\<^verbatim>\<open>s.padStart(2, '0')\<close>\<close>

definition padStart2 :: "jsstring \<Rightarrow> jsstring" where
  "padStart2 s = replicate (2 - length s) 48 @ s"

section \<open>The exporter\<close>

text \<open>\<^verbatim>\<open>Math.ceil(a / b)\<close> for integers \<open>a\<close> and \<open>b > 0\<close>.\<close>

definition ceil_div :: "int \<Rightarrow> int \<Rightarrow> int" where
  "ceil_div a b = - ((- a) div b)"

text \<open>\<^verbatim>\<open>Math.round(a / b)\<close> for integers \<open>a\<close> and \<open>b > 0\<close>, and the remainder \<^verbatim>\<open>a % b\<close>, which has
  the sign of \<open>a\<close>.\<close>

definition round_div :: "int \<Rightarrow> int \<Rightarrow> int" where
  "round_div a b = (2 * a + b) div (2 * b)"

definition js_rem :: "int \<Rightarrow> int \<Rightarrow> int" where
  "js_rem a b = sgn a * (\<bar>a\<bar> mod \<bar>b\<bar>)"

text \<open>
  The midnight of the local day of a date: \<^verbatim>\<open>new Date(d.getFullYear(), d.getMonth(), d.getDate())\<close>.
  The fields of an Invalid Date are \<^verbatim>\<open>NaN\<close>, and the constructor gives an Invalid Date for them.
\<close>

definition midnight :: "runtime \<Rightarrow> date \<Rightarrow> date" where
  "midnight rt d =
     (case d of InvalidDate \<Rightarrow> InvalidDate
      | Date t \<Rightarrow> newDateYMD rt (getFullYear rt t) (getMonth rt t) (getDate rt t))"

text \<open>\<^verbatim>\<open>Math.ceil\<close> and \<^verbatim>\<open>Math.max\<close> give \<^verbatim>\<open>NaN\<close> for \<^verbatim>\<open>NaN\<close>.\<close>

definition calculateOvernightNights :: "runtime \<Rightarrow> eventProcessor \<Rightarrow> event \<Rightarrow> number" where
  "calculateOvernightNights rt ep ev =
     (if \<not> ep_isOvernightEvent ep ev then Some 0
      else (let startDay = midnight rt (start ev);
                endDay = midnight rt (endTime ev);
                diffTime = num_sub (getTime endDay) (getTime startDay);
                diffDays = (case diffTime of Some d \<Rightarrow> Some (ceil_div d (1000 * 60 * 60 * 24)) | None \<Rightarrow> None)
            in case diffDays of Some d \<Rightarrow> Some (max 1 d) | None \<Rightarrow> None))"

text \<open>\<^verbatim>\<open>event.title || ''\<close>\<close>

definition titleOrEmpty :: "event \<Rightarrow> jsstring" where
  "titleOrEmpty ev = (case title ev of None \<Rightarrow> [] | Some t \<Rightarrow> t)"

text \<open>\<^verbatim>\<open>/\b(end\s*(overnight|hs|housesit))\b/i\<close>\<close>

definition endOvernight :: regex where
  "endOvernight =
     seqs [WordB, Str (lit ''end''), StarC Space, words [''overnight'', ''hs'', ''housesit''], WordB]"

definition isEndOvernightMarker :: "runtime \<Rightarrow> event \<Rightarrow> bool" where
  "isEndOvernightMarker rt ev =
     (let title = titleOrEmpty ev;
          titleLower = toLowerCase rt title
      in rx_test True endOvernight titleLower)"

text \<open>The check date is optional; \<open>None\<close> is the default \<^verbatim>\<open>null\<close>.  A date object is truthy, valid or not.\<close>

definition shouldIncludeEventOnDate :: "runtime \<Rightarrow> eventProcessor \<Rightarrow> event \<Rightarrow> date option \<Rightarrow> bool" where
  "shouldIncludeEventOnDate rt ep ev checkDate =
     (if isEndOvernightMarker rt ev then False
      else if \<not> ep_isOvernightEvent ep ev then True
      else (case checkDate of None \<Rightarrow> True
            | Some cd \<Rightarrow>
                (let eventStart = start ev;
                     eventStartDay = midnight rt eventStart;
                     checkDay = midnight rt cd
                 in num_eq (getTime eventStartDay) (getTime checkDay))))"

text \<open>\<^verbatim>\<open>/\b(15|20|30|45|60)\b/i\<close>\<close>

definition durationToken :: regex where
  "durationToken = seqs [WordB, words [''15'', ''20'', ''30'', ''45'', ''60''], WordB]"

definition formatServiceType :: "runtime \<Rightarrow> eventProcessor \<Rightarrow> event \<Rightarrow> jsstring" where
  "formatServiceType rt ep ev =
     (let title = titleOrEmpty ev;
          titleLower = toLowerCase rt title
      in if ep_isOvernightEvent ep ev then
           (let nights = calculateOvernightNights rt ep ev;
                nightLabel = (if num_eq nights (Some 1) then lit ''1 night'' else numString nights @ lit '' nights'')
            in lit ''Overnight ('' @ nightLabel @ lit '')'')
         else if str_includes titleLower (lit ''nail trim'') then lit ''Nail Trim''
         else (case rx_exec True durationToken title of
                 Some durationMatch \<Rightarrow> durationMatch @ lit ''-min''
               | None \<Rightarrow>
                   if ep_meetAndGreet ep title then lit ''Meet & Greet''
                   else if etype ev = Some (lit ''walk'') then lit ''Dog Walk'' else lit ''Visit''))"

text \<open>\<^verbatim>\<open>/^([^-\<endash>\<emdash>]+)/\<close>, the dashes being the code units 45, 8211 and 8212.\<close>

definition beforeDash :: regex where
  "beforeDash = Seq Bol (PlusC (NoneOf [45, 8211, 8212]))"

text \<open>\<^verbatim>\<open>/\b(15|20|30|45|60)\s*$/i\<close>\<close>

definition durationTail :: regex where
  "durationTail = seqs [WordB, words [''15'', ''20'', ''30'', ''45'', ''60''], StarC Space, Eol]"

text \<open>\<^verbatim>\<open>/\b(MG|M&G|HS|Housesit)\s*$/i\<close>\<close>

definition markerTail :: regex where
  "markerTail = seqs [WordB, words [''MG'', ''M&G'', ''HS'', ''Housesit''], StarC Space, Eol]"

definition extractClientName :: "jsstring option \<Rightarrow> jsstring" where
  "extractClientName ttl =
     (case ttl of None \<Rightarrow> []
      | Some t \<Rightarrow>
          if t = [] then []
          else (let cleanTitle = trim (rx_replace_all False parenGroup [] t)
                in case rx_exec False beforeDash cleanTitle of
                     Some dashMatch \<Rightarrow>
                       (let name = trim dashMatch;
                            name = trim (rx_remove_first True durationTail name);
                            name = trim (rx_remove_first True markerTail name)
                        in name)
                   | None \<Rightarrow> cleanTitle))"




definition formatDate :: "runtime \<Rightarrow> date \<Rightarrow> jsstring" where
  "formatDate rt d =
     (let month = padStart2 (numString (num_add (dateField (getMonth rt) d) (Some 1)));
          day = padStart2 (numString (dateField (getDate rt) d));
          year = dateField (getFullYear rt) d
      in month @ lit ''/'' @ day @ lit ''/'' @ numString year)"

text \<open>\<^verbatim>\<open>hours ? hours : 12\<close> takes 12 for 0 and for \<^verbatim>\<open>NaN\<close>.\<close>

definition formatTime :: "runtime \<Rightarrow> date \<Rightarrow> jsstring" where
  "formatTime rt d =
     (let hours = dateField (getHours rt) d;
          minutes = dateField (getMinutes rt) d;
          ampm = (if num_ge hours (Some 12) then lit ''PM'' else lit ''AM'');
          hours = (case hours of Some h \<Rightarrow> Some (js_rem h 12) | None \<Rightarrow> None);
          hours = (if hours \<noteq> None \<and> hours \<noteq> Some 0 then hours else Some 12);
          minuteStr = (if num_lt minutes (Some 10) then lit ''0'' @ numString minutes else numString minutes)
      in numString hours @ lit '':'' @ minuteStr @ lit '' '' @ ampm)"

definition compareEvents :: "runtime \<Rightarrow> eventProcessor \<Rightarrow> event \<Rightarrow> event \<Rightarrow> jsstring \<Rightarrow> number" where
  "compareEvents rt ep a b sortField =
     (if sortField = lit ''client'' then
        (let clientA = toLowerCase rt (extractClientName (title a));
             clientB = toLowerCase rt (extractClientName (title b))
         in Some (localeCompare rt clientA clientB))
      else if sortField = lit ''service'' then
        (let serviceA = toLowerCase rt (formatServiceType rt ep a);
             serviceB = toLowerCase rt (formatServiceType rt ep b)
         in Some (localeCompare rt serviceA serviceB))
      else if sortField = lit ''time'' then
        (let timeA = start a;
             timeB = start b;
             minutesA = num_add (num_mul (dateField (getHours rt) timeA) (Some 60)) (dateField (getMinutes rt) timeA);
             minutesB = num_add (num_mul (dateField (getHours rt) timeB) (Some 60)) (dateField (getMinutes rt) timeB)
         in num_sub minutesA minutesB)
      else num_sub (getTime (start a)) (getTime (start b)))"

text \<open>
  \<^verbatim>\<open>Array.prototype.sort\<close> with a comparison function.  The sort reads a result \<^verbatim>\<open>NaN\<close> of the
  comparison function as zero.  It is stable, and for a consistent comparison function its
  result is the one stable sorted arrangement, which insertion from the right computes.
\<close>

definition sortCompare :: "('a \<Rightarrow> 'a \<Rightarrow> number) \<Rightarrow> 'a \<Rightarrow> 'a \<Rightarrow> int" where
  "sortCompare cmp x y = (case cmp x y of None \<Rightarrow> 0 | Some v \<Rightarrow> v)"

fun insertBy :: "('a \<Rightarrow> 'a \<Rightarrow> int) \<Rightarrow> 'a \<Rightarrow> 'a list \<Rightarrow> 'a list" where
  "insertBy cmp x [] = [x]"
| "insertBy cmp x (y # ys) = (if cmp x y \<le> 0 then x # y # ys else y # insertBy cmp x ys)"

definition jsSort :: "('a \<Rightarrow> 'a \<Rightarrow> number) \<Rightarrow> 'a list \<Rightarrow> 'a list" where
  "jsSort cmp xs = foldr (insertBy (sortCompare cmp)) xs []"

record sortLevel =
  sortBy :: jsstring
  sortOrder :: jsstring

text \<open>
  The comparison function that \<^verbatim>\<open>sortEventsMultiLevel\<close> hands to the sort.  \<^verbatim>\<open>NaN !== 0\<close>
  holds, so a level whose comparison is \<^verbatim>\<open>NaN\<close> decides.
\<close>

fun compareLevels :: "runtime \<Rightarrow> eventProcessor \<Rightarrow> sortLevel list \<Rightarrow> event \<Rightarrow> event \<Rightarrow> number" where
  "compareLevels rt ep [] a b = num_sub (getTime (start a)) (getTime (start b))"
| "compareLevels rt ep (level # levels) a b =
     (let comparison = compareEvents rt ep a b (sortBy level);
          comparison = (if sortOrder level = lit ''desc'' then num_neg comparison else comparison)
      in if comparison \<noteq> Some 0 then comparison else compareLevels rt ep levels a b)"

definition sortEventsMultiLevel :: "runtime \<Rightarrow> eventProcessor \<Rightarrow> event list \<Rightarrow> sortLevel list \<Rightarrow> event list" where
  "sortEventsMultiLevel rt ep events sortLevels =
     (let levels = (if sortLevels = [] then [\<lparr>sortBy = lit ''time'', sortOrder = lit ''asc''\<rparr>] else sortLevels)
      in jsSort (compareLevels rt ep levels) events)"

text \<open>
  The legacy sort of \<^verbatim>\<open>sortEvents\<close> with a primary and an optional secondary field.
\<close>

definition compareLegacy :: "runtime \<Rightarrow> eventProcessor \<Rightarrow> jsstring \<Rightarrow> jsstring option \<Rightarrow> jsstring \<Rightarrow> event \<Rightarrow> event \<Rightarrow> number" where
  "compareLegacy rt ep primarySort secondarySort order a b =
     (let comparison = compareEvents rt ep a b primarySort;
          comparison =
            (case secondarySort of
               Some sec \<Rightarrow> if comparison = Some 0 \<and> sec \<noteq> [] then compareEvents rt ep a b sec else comparison
             | None \<Rightarrow> comparison);
          comparison =
            (if comparison = Some 0 \<and> primarySort \<noteq> lit ''date'' \<and> secondarySort \<noteq> Some (lit ''date'')
             then compareEvents rt ep a b (lit ''date'') else comparison)
      in if order = lit ''desc'' then num_neg comparison else comparison)"

definition sortEvents :: "runtime \<Rightarrow> eventProcessor \<Rightarrow> event list \<Rightarrow> jsstring \<Rightarrow> jsstring option \<Rightarrow> jsstring \<Rightarrow> event list" where
  "sortEvents rt ep events primarySort secondarySort order =
     jsSort (compareLegacy rt ep primarySort secondarySort order) events"

subsection \<open>Grouping\<close>

text \<open>\<^verbatim>\<open>setDate\<close> and \<^verbatim>\<open>setHours\<close> leave an Invalid Date invalid.\<close>

definition getWeekStart :: "runtime \<Rightarrow> date \<Rightarrow> date" where
  "getWeekStart rt d =
     (case d of InvalidDate \<Rightarrow> InvalidDate
      | Date t \<Rightarrow> (let day = getDay rt t in setDateMidnight rt t (getDate rt t - day)))"

definition getWeekLabel :: "runtime \<Rightarrow> date \<Rightarrow> jsstring" where
  "getWeekLabel rt d = (let weekStart = getWeekStart rt d in lit ''Week of '' @ formatDate rt weekStart)"

definition getMonthLabel :: "runtime \<Rightarrow> date \<Rightarrow> jsstring" where
  "getMonthLabel rt d =
     (let month = padStart2 (numString (num_add (dateField (getMonth rt) d) (Some 1)));
          year = dateField (getFullYear rt) d
      in month @ lit ''/'' @ numString year)"

definition getGroupKey :: "runtime \<Rightarrow> eventProcessor \<Rightarrow> event \<Rightarrow> jsstring \<Rightarrow> jsstring" where
  "getGroupKey rt ep ev groupType =
     (let eventDate = start ev
      in if groupType = lit ''client'' then extractClientName (title ev)
         else if groupType = lit ''service'' then formatServiceType rt ep ev
         else if groupType = lit ''date'' then formatDate rt eventDate
         else if groupType = lit ''week'' then getWeekLabel rt eventDate
         else if groupType = lit ''month'' then getMonthLabel rt eventDate
         else lit ''Unknown'')"

text \<open>
  A \<^verbatim>\<open>Map\<close> keeps its keys in the order of their first insertion: an association list.
  \<open>map_push m k v\<close> is \<^verbatim>\<open>if (!m.has(k)) m.set(k, []); m.get(k).push(v)\<close>.
\<close>

fun map_push :: "('k \<times> 'v list) list \<Rightarrow> 'k \<Rightarrow> 'v \<Rightarrow> ('k \<times> 'v list) list" where
  "map_push [] k v = [(k, [v])]"
| "map_push ((k', vs) # m) k v = (if k' = k then (k', vs @ [v]) # m else (k', vs) # map_push m k v)"

text \<open>The nested structure: an array of events, or a map from group keys to nested structures.\<close>

datatype groups = EventArray "event list" | GroupMap "(jsstring \<times> groups) list"

fun buildNestedGroups :: "runtime \<Rightarrow> eventProcessor \<Rightarrow> event list \<Rightarrow> jsstring list \<Rightarrow> groups" where
  "buildNestedGroups rt ep events [] = EventArray events"
| "buildNestedGroups rt ep events (currentLevel # remainingLevels) =
     (let grouped = foldl (\<lambda>m ev. map_push m (getGroupKey rt ep ev currentLevel) ev) [] events
      in if remainingLevels \<noteq> []
         then GroupMap (map (\<lambda>entry. (fst entry, buildNestedGroups rt ep (snd entry) remainingLevels)) grouped)
         else GroupMap (map (\<lambda>entry. (fst entry, EventArray (snd entry))) grouped))"

fun countEvents :: "groups \<Rightarrow> int" where
  "countEvents (EventArray events) = int (length events)"
| "countEvents (GroupMap m) = sum_list (map (\<lambda>entry. countEvents (snd entry)) m)"

text \<open>
  In \<^verbatim>\<open>sortGroupKeys\<close> the difference of two parsed dates is \<^verbatim>\<open>NaN\<close> when one of them is
  invalid.  The group type is \<open>None\<close> when \<^verbatim>\<open>groupLevels[depth]\<close> is \<^verbatim>\<open>undefined\<close>.
\<close>

definition sortGroupKeys :: "runtime \<Rightarrow> jsstring list \<Rightarrow> jsstring option \<Rightarrow> jsstring \<Rightarrow> jsstring \<Rightarrow> jsstring list" where
  "sortGroupKeys rt keys groupType sortField order =
     (let isDateBasedGroup =
            (groupType = Some (lit ''date'') \<or> groupType = Some (lit ''week'') \<or> groupType = Some (lit ''month''));
          sortedKeys =
            (if isDateBasedGroup \<and> sortField \<noteq> lit ''alpha''
             then jsSort (\<lambda>a b. (let dateA = parseGroupKeyToDate rt a (the groupType);
                                      dateB = parseGroupKeyToDate rt b (the groupType)
                                  in num_sub (getTime dateA) (getTime dateB))) keys
             else jsSort (\<lambda>a b. Some (localeCompare rt a b)) keys)
      in if order = lit ''desc'' then rev sortedKeys else sortedKeys)"

definition countLabel :: "int \<Rightarrow> jsstring" where
  "countLabel n = (if n = 1 then lit ''1 event'' else String n @ lit '' events'')"

text \<open>One line of a leaf list; the bullet is the code unit 8226, the pin the pair 55357, 56525.\<close>

definition eventLine :: "runtime \<Rightarrow> eventProcessor \<Rightarrow> jsstring list \<Rightarrow> jsstring \<Rightarrow> bool \<Rightarrow> bool \<Rightarrow> event \<Rightarrow> jsstring" where
  "eventLine rt ep groupLevels indent includeTime includeLocation ev =
     (let client = extractClientName (title ev);
          serviceType = formatServiceType rt ep ev;
          eventDate = start ev;
          date = formatDate rt eventDate;
          time = (if includeTime then lit '' @ '' @ formatTime rt eventDate else []);
          loc = (case location ev of
                   Some l \<Rightarrow> if includeLocation \<and> l \<noteq> []
                              then [10] @ indent @ lit ''    '' @ [55357, 56525] @ lit '' '' @ l else []
                 | None \<Rightarrow> []);
          showDate = (lit ''date'' \<notin> set groupLevels \<and> lit ''week'' \<notin> set groupLevels
                      \<and> lit ''month'' \<notin> set groupLevels);
          datePrefix = (if showDate then date @ lit '' | '' else [])
      in indent @ lit ''  '' @ [8226] @ lit '' '' @ datePrefix @ client @ lit '' | '' @ serviceType @ time @ loc @ [10])"

function renderNestedGroups ::
  "runtime \<Rightarrow> eventProcessor \<Rightarrow> groups \<Rightarrow> jsstring list \<Rightarrow> nat \<Rightarrow> bool \<Rightarrow> bool \<Rightarrow> jsstring \<Rightarrow> jsstring
     \<Rightarrow> sortLevel list \<Rightarrow> jsstring" where
  "renderNestedGroups rt ep (EventArray events) groupLevels depth includeTime includeLocation groupSortBy groupSortOrder eventSortLevels =
     (let indent = concat (replicate depth (lit ''  ''));
          sortedEvents = sortEventsMultiLevel rt ep events eventSortLevels
      in concat (map (eventLine rt ep groupLevels indent includeTime includeLocation) sortedEvents))"
| "renderNestedGroups rt ep (GroupMap m) groupLevels depth includeTime includeLocation groupSortBy groupSortOrder eventSortLevels =
     (let indent = concat (replicate depth (lit ''  ''));
          currentGroupType = (if depth < length groupLevels then Some (groupLevels ! depth) else None);
          sortedKeys = sortGroupKeys rt (map fst m) currentGroupType groupSortBy groupSortOrder
      in concat (map (\<lambda>key.
           case map_of m key of
             None \<Rightarrow> []
           | Some v \<Rightarrow>
               indent @ key @ lit '' ('' @ countLabel (countEvents v) @ lit '')'' @ [10]
               @ renderNestedGroups rt ep v groupLevels (depth + 1) includeTime includeLocation groupSortBy
                   groupSortOrder eventSortLevels
               @ [10]) sortedKeys))"
  by pat_completeness auto
termination
proof (relation "measure (\<lambda>(rt, ep, data, rest). size data)", goal_cases)
  case 1
  show ?case by simp
next
  case (2 rt ep m groupLevels depth includeTime includeLocation groupSortBy groupSortOrder eventSortLevels
          indent currentGroupType sortedKeys key v)
  from 2 have "(key, v) \<in> set m" by (auto dest: map_of_SomeD)
  then have "size v < Suc (size_list (size_prod (\<lambda>_. 0) size) m)"
    by (induction m) auto
  then show ?case by simp
qed

subsection \<open>Text reports\<close>

definition simpleLine :: "runtime \<Rightarrow> eventProcessor \<Rightarrow> bool \<Rightarrow> bool \<Rightarrow> event \<Rightarrow> jsstring" where
  "simpleLine rt ep includeTime includeLocation ev =
     (let eventDate = start ev;
          date = formatDate rt eventDate;
          client = extractClientName (title ev);
          serviceType = formatServiceType rt ep ev;
          time = (if includeTime then lit '' @ '' @ formatTime rt eventDate else []);
          loc = (case location ev of
                   Some l \<Rightarrow> if includeLocation \<and> l \<noteq> [] then lit '' | '' @ l else []
                 | None \<Rightarrow> [])
      in date @ lit '' | '' @ client @ lit '' | '' @ serviceType @ time @ loc @ [10])"

definition generateSimpleList :: "runtime \<Rightarrow> eventProcessor \<Rightarrow> event list \<Rightarrow> bool \<Rightarrow> bool \<Rightarrow> jsstring" where
  "generateSimpleList rt ep events includeTime includeLocation =
     concat (map (simpleLine rt ep includeTime includeLocation) events)"

text \<open>A missing \<^verbatim>\<open>sortBy\<close> or \<^verbatim>\<open>sortOrder\<close> of the group sort is the empty string.\<close>

definition generateDynamicGrouping ::
  "runtime \<Rightarrow> eventProcessor \<Rightarrow> event list \<Rightarrow> jsstring list \<Rightarrow> bool \<Rightarrow> bool \<Rightarrow> sortLevel \<Rightarrow> sortLevel list \<Rightarrow> jsstring" where
  "generateDynamicGrouping rt ep events groupLevels includeTime includeLocation groupSort eventSort =
     (if groupLevels = [] then generateSimpleList rt ep events includeTime includeLocation
      else (let groupSortBy = (if sortBy groupSort \<noteq> [] then sortBy groupSort else lit ''date'');
                groupSortOrder = (if sortOrder groupSort \<noteq> [] then sortOrder groupSort else lit ''asc'');
                grouped = buildNestedGroups rt ep events groupLevels
            in renderNestedGroups rt ep grouped groupLevels 0 includeTime includeLocation groupSortBy
                 groupSortOrder eventSort))"

text \<open>\<^verbatim>\<open>s.split(sep)\<close> for a separator of one code unit.\<close>

fun split_on :: "nat \<Rightarrow> jsstring \<Rightarrow> jsstring list" where
  "split_on sep [] = [[]]"
| "split_on sep (x # s) =
     (if x = sep then [] # split_on sep s
      else (case split_on sep s of [] \<Rightarrow> [[x]] | p # ps \<Rightarrow> (x # p) # ps))"

record options =
  startDate :: "date option"
  endDate :: "date option"
  includeTime :: bool
  includeLocation :: bool
  groupBy :: jsstring
  groupSort :: sortLevel
  eventSort :: "sortLevel list"
  workEventsOnly :: bool

text \<open>The first filter of both generators: the work flag and the inclusive date range.\<close>

definition inRange :: "eventProcessor \<Rightarrow> bool \<Rightarrow> date option \<Rightarrow> date option \<Rightarrow> event \<Rightarrow> bool" where
  "inRange ep workOnly sd ed ev =
     (if workOnly \<and> \<not> ep_isWorkEvent ep ev then False
      else (let eventDate = start ev
            in if (case sd of Some s \<Rightarrow> num_lt (getTime eventDate) (getTime s) | None \<Rightarrow> False) then False
               else if (case ed of Some e \<Rightarrow> num_gt (getTime eventDate) (getTime e) | None \<Rightarrow> False) then False
               else True))"

text \<open>The second filter of \<^verbatim>\<open>generateTextList\<close>: each event is checked on its own start date.\<close>

definition onStartDate :: "runtime \<Rightarrow> eventProcessor \<Rightarrow> event \<Rightarrow> bool" where
  "onStartDate rt ep ev = (let eventDate = start ev in shouldIncludeEventOnDate rt ep ev (Some eventDate))"

definition generateTextList :: "runtime \<Rightarrow> eventProcessor \<Rightarrow> event list \<Rightarrow> options \<Rightarrow> jsstring" where
  "generateTextList rt ep events opts =
     (let filteredEvents = filter (inRange ep (workEventsOnly opts) (startDate opts) (endDate opts)) events;
          filteredEvents = filter (onStartDate rt ep) filteredEvents;
          filteredEvents = sortEventsMultiLevel rt ep filteredEvents (eventSort opts)
      in if filteredEvents = [] then lit ''No events found in the selected date range.''
         else (let sortedByDate = jsSort (\<lambda>a b. num_sub (getTime (start a)) (getTime (start b))) filteredEvents;
                   firstEventDate = formatDate rt (start (hd sortedByDate));
                   lastEventDate = formatDate rt (start (last sortedByDate));
                   filterLabel = (if workEventsOnly opts then lit ''Work Events'' else lit ''All Events'');
                   n = int (length filteredEvents);
                   output = filterLabel @ lit '' Summary'' @ [10]
                            @ firstEventDate @ lit '' - '' @ lastEventDate @ [10]
                            @ lit ''Total: '' @ String n @ lit '' event'' @ (if n \<noteq> 1 then lit ''s'' else []) @ [10]
                            @ replicate 50 61 @ [10, 10];
                   groupLevels = filter (\<lambda>level. level \<noteq> [] \<and> level \<noteq> lit ''none'') (split_on 45 (groupBy opts))
               in if groupLevels \<noteq> []
                  then trim (output @ generateDynamicGrouping rt ep filteredEvents groupLevels (includeTime opts)
                                        (includeLocation opts) (groupSort opts) (eventSort opts))
                  else trim (output @ generateSimpleList rt ep filteredEvents (includeTime opts) (includeLocation opts))))"

subsection \<open>CSV\<close>

definition escapeCSV :: "jsstring \<Rightarrow> jsstring" where
  "escapeCSV v =
     (if v = [] then []
      else if str_includes v (lit '','') \<or> str_includes v [34] \<or> str_includes v [10]
      then [34] @ rx_replace_all False (Str [34]) [34, 34] v @ [34]
      else v)"

text \<open>The duration column; \<^verbatim>\<open>Math.round\<close>, \<^verbatim>\<open>Math.floor\<close> and \<^verbatim>\<open>%\<close> give \<^verbatim>\<open>NaN\<close> for \<^verbatim>\<open>NaN\<close>.\<close>

definition formatDuration :: "event \<Rightarrow> jsstring" where
  "formatDuration ev =
     (let durationMinutes =
            (case num_sub (getTime (endTime ev)) (getTime (start ev)) of
               Some d \<Rightarrow> Some (round_div d (1000 * 60)) | None \<Rightarrow> None);
          durationHours = (case durationMinutes of Some m \<Rightarrow> Some (m div 60) | None \<Rightarrow> None);
          remainingMinutes = (case durationMinutes of Some m \<Rightarrow> Some (js_rem m 60) | None \<Rightarrow> None)
      in if num_gt durationHours (Some 0)
         then numString durationHours @ lit ''h '' @ numString remainingMinutes @ lit ''m''
         else numString remainingMinutes @ lit ''m'')"

record csvOptions =
  csv_startDate :: "date option"
  csv_endDate :: "date option"
  csv_workEventsOnly :: bool
  csv_sortBy :: jsstring
  csv_secondarySort :: "jsstring option"
  csv_sortOrder :: jsstring
  csv_includeLocation :: bool

text \<open>The row of one event; an event that fails the check on its start date gives no row.\<close>

definition csvRow :: "runtime \<Rightarrow> eventProcessor \<Rightarrow> bool \<Rightarrow> event \<Rightarrow> jsstring" where
  "csvRow rt ep inclLocation ev =
     (let eventDate = start ev
      in if \<not> shouldIncludeEventOnDate rt ep ev (Some eventDate) then []
         else (let date = formatDate rt eventDate;
                   time = formatTime rt eventDate;
                   client = escapeCSV (extractClientName (title ev));
                   serviceType = escapeCSV (formatServiceType rt ep ev);
                   duration = formatDuration ev
               in if inclLocation
                  then (let loc = escapeCSV (case location ev of Some l \<Rightarrow> l | None \<Rightarrow> [])
                        in date @ lit '','' @ time @ lit '','' @ client @ lit '','' @ serviceType @ lit '',''
                           @ duration @ lit '','' @ loc @ [10])
                  else date @ lit '','' @ time @ lit '','' @ client @ lit '','' @ serviceType @ lit '',''
                       @ duration @ [10]))"

definition generateCSV :: "runtime \<Rightarrow> eventProcessor \<Rightarrow> event list \<Rightarrow> csvOptions \<Rightarrow> jsstring" where
  "generateCSV rt ep events opts =
     (let filteredEvents =
            filter (inRange ep (csv_workEventsOnly opts) (csv_startDate opts) (csv_endDate opts)) events;
          filteredEvents = sortEvents rt ep filteredEvents (csv_sortBy opts) (csv_secondarySort opts) (csv_sortOrder opts);
          csv = (if csv_includeLocation opts
                 then lit ''Date,Time,Client/Pet,Service Type,Duration,Location'' @ [10]
                 else lit ''Date,Time,Client/Pet,Service Type,Duration'' @ [10])
      in csv @ concat (map (csvRow rt ep (csv_includeLocation opts)) filteredEvents))"

section \<open>A runtime in UTC with code-unit collation\<close>

text \<open>
  One runtime, used to run the exporter on given events: local time is UTC, the calendar
  is the proleptic Gregorian one, strings are collated by code units, and group labels of
  the shapes the exporter writes are parsed back.  A time value beyond 8.64e15 milliseconds
  from the epoch gives an Invalid Date.
\<close>

definition timeClip :: "int \<Rightarrow> date" where
  "timeClip t = (if \<bar>t\<bar> \<le> 8640000000000000 then Date t else InvalidDate)"

definition civil :: "int \<Rightarrow> int \<times> int \<times> int" where
  "civil days =
     (let z = days + 719468;
          era = z div 146097;
          doe = z mod 146097;
          yoe = (doe - doe div 1460 + doe div 36524 - doe div 146096) div 365;
          y = yoe + era * 400;
          doy = doe - (365 * yoe + yoe div 4 - yoe div 100);
          mp = (5 * doy + 2) div 153;
          d = doy - (153 * mp + 2) div 5 + 1;
          m = (if mp < 10 then mp + 3 else mp - 9)
      in (if m \<le> 2 then y + 1 else y, m, d))"

definition daysFromCivil :: "int \<Rightarrow> int \<Rightarrow> int \<Rightarrow> int" where
  "daysFromCivil y m d =
     (let y' = (if m \<le> 2 then y - 1 else y);
          era = y' div 400;
          yoe = y' mod 400;
          doy = (153 * (if m > 2 then m - 3 else m + 9) + 2) div 5 + d - 1;
          doe = yoe * 365 + yoe div 4 - yoe div 100 + doy
      in era * 146097 + doe - 719468)"

text \<open>The time value of the midnight that opens a day given by year, month and day.\<close>

definition utcMidnight :: "int \<Rightarrow> int \<Rightarrow> int \<Rightarrow> int" where
  "utcMidnight y m d =
     (let y' = (if 0 \<le> y \<and> y \<le> 99 then 1900 + y else y)
      in (daysFromCivil (y' + m div 12) (m mod 12 + 1) 1 + d - 1) * 86400000)"

definition utcNewDate :: "int \<Rightarrow> int \<Rightarrow> int \<Rightarrow> date" where
  "utcNewDate y m d = timeClip (utcMidnight y m d)"

text \<open>The midnight of the day \<open>n\<close> of the month of a time value.\<close>

definition utcMonthDay :: "int \<Rightarrow> int \<Rightarrow> int" where
  "utcMonthDay t n =
     (case civil (t div 86400000) of (y, m, d) \<Rightarrow> (daysFromCivil y m 1 + n - 1) * 86400000)"

definition utcSetDateMidnight :: "int \<Rightarrow> int \<Rightarrow> date" where
  "utcSetDateMidnight t n = timeClip (utcMonthDay t n)"

fun unitCompare :: "jsstring \<Rightarrow> jsstring \<Rightarrow> int" where
  "unitCompare [] [] = 0"
| "unitCompare [] (y # ys) = - 1"
| "unitCompare (x # xs) [] = 1"
| "unitCompare (x # xs) (y # ys) = (if x < y then - 1 else if y < x then 1 else unitCompare xs ys)"

definition parseDigits :: "jsstring \<Rightarrow> int option" where
  "parseDigits s =
     (if s \<noteq> [] \<and> list_all (\<lambda>c. 48 \<le> c \<and> c \<le> 57) s
      then Some (foldl (\<lambda>n c. 10 * n + (int c - 48)) 0 s) else None)"

definition parseKeyWith :: "(int \<Rightarrow> int \<Rightarrow> int \<Rightarrow> date) \<Rightarrow> jsstring \<Rightarrow> jsstring \<Rightarrow> date" where
  "parseKeyWith newDate key groupType =
     (let parts = (if groupType = lit ''week'' \<and> is_prefix (lit ''Week of '') key
                   then split_on 47 (drop 8 key) else split_on 47 key)
      in case map parseDigits parts of
           [Some m, Some d, Some y] \<Rightarrow>
             if groupType = lit ''date'' \<or> groupType = lit ''week'' then newDate y (m - 1) d else InvalidDate
         | [Some m, Some y] \<Rightarrow> if groupType = lit ''month'' then newDate y (m - 1) 1 else InvalidDate
         | _ \<Rightarrow> InvalidDate)"

text \<open>
  Lower-casing in the sample runtimes.  It follows the Unicode mapping on the code units
  up to U+00FF and on U+0130 (capital I with dot above, which becomes \<open>i\<close> and the combining
  dot U+0307), U+212A (the Kelvin sign, which becomes \<open>k\<close>) and U+212B (the Angstrom sign,
  which becomes U+00E5); any other code unit is left as it is.  The sample titles hold no
  other code unit that has a lower-case form.
\<close>

definition lowerUnit :: "nat \<Rightarrow> nat list" where
  "lowerUnit c =
     (if (65 \<le> c \<and> c \<le> 90) \<or> (192 \<le> c \<and> c \<le> 214) \<or> (216 \<le> c \<and> c \<le> 222) then [c + 32]
      else if c = 304 then [105, 775]
      else if c = 8490 then [107]
      else if c = 8491 then [229]
      else [c])"

definition lowerCase :: "jsstring \<Rightarrow> jsstring" where
  "lowerCase s = concat (map lowerUnit s)"

definition utcGetFullYear :: "int \<Rightarrow> int" where
  "utcGetFullYear t = fst (civil (t div 86400000))"

definition utcGetMonth :: "int \<Rightarrow> int" where
  "utcGetMonth t = fst (snd (civil (t div 86400000))) - 1"

definition utcGetDate :: "int \<Rightarrow> int" where
  "utcGetDate t = snd (snd (civil (t div 86400000)))"

definition utcGetDay :: "int \<Rightarrow> int" where
  "utcGetDay t = (t div 86400000 + 4) mod 7"

definition utcGetHours :: "int \<Rightarrow> int" where
  "utcGetHours t = (t mod 86400000) div 3600000"

definition utcGetMinutes :: "int \<Rightarrow> int" where
  "utcGetMinutes t = (t mod 3600000) div 60000"

definition utcRuntime :: runtime where
  "utcRuntime =
     \<lparr> getFullYear = utcGetFullYear,
       getMonth = utcGetMonth,
       getDate = utcGetDate,
       getDay = utcGetDay,
       getHours = utcGetHours,
       getMinutes = utcGetMinutes,
       newDateYMD = utcNewDate,
       setDateMidnight = utcSetDateMidnight,
       localeCompare = unitCompare,
       toLowerCase = lowerCase,
       parseGroupKeyToDate = parseKeyWith utcNewDate \<rparr>"

text \<open>
  A processor to run the exporter with: an event is an overnight stay when its type is
  \<^verbatim>\<open>overnight\<close>, work is decided by the classifier above, and the meet-and-greet pattern is
  the one of the classifier.
\<close>

definition typeIsOvernight :: "event \<Rightarrow> bool" where
  "typeIsOvernight ev = (etype ev = Some (lit ''overnight''))"

definition classifiedAsWork :: "event \<Rightarrow> bool" where
  "classifiedAsWork ev = isWorkEvent (EventArg (title ev))"

definition sampleProcessor :: eventProcessor where
  "sampleProcessor =
     \<lparr> ep_isOvernightEvent = typeIsOvernight,
       ep_isWorkEvent = classifiedAsWork,
       ep_meetAndGreet = rx_test True meetAndGreet \<rparr>"

section \<open>A runtime with daylight saving time\<close>

text \<open>
  Local time as in New York around the end of daylight saving time in 2025: four hours
  behind UTC before 2 November 2025, 06:00 UTC, and five hours behind from then on.  The
  local day of 2 November has 25 hours.
\<close>

definition easternOffset :: "int \<Rightarrow> int" where
  "easternOffset t = (if t < 1762063200000 then 14400000 else 18000000)"

definition easternLocal :: "int \<Rightarrow> int" where
  "easternLocal t = t - easternOffset t"

text \<open>The time value of a local time given in milliseconds.\<close>

definition easternUTC :: "int \<Rightarrow> int" where
  "easternUTC local = (if local + 14400000 < 1762063200000 then local + 14400000 else local + 18000000)"

definition easternNewDate :: "int \<Rightarrow> int \<Rightarrow> int \<Rightarrow> date" where
  "easternNewDate y m d = timeClip (easternUTC (utcMidnight y m d))"

definition easternSetDateMidnight :: "int \<Rightarrow> int \<Rightarrow> date" where
  "easternSetDateMidnight t n = timeClip (easternUTC (utcMonthDay (easternLocal t) n))"

definition easternGetFullYear :: "int \<Rightarrow> int" where
  "easternGetFullYear t = utcGetFullYear (easternLocal t)"

definition easternGetMonth :: "int \<Rightarrow> int" where
  "easternGetMonth t = utcGetMonth (easternLocal t)"

definition easternGetDate :: "int \<Rightarrow> int" where
  "easternGetDate t = utcGetDate (easternLocal t)"

definition easternGetDay :: "int \<Rightarrow> int" where
  "easternGetDay t = utcGetDay (easternLocal t)"

definition easternGetHours :: "int \<Rightarrow> int" where
  "easternGetHours t = utcGetHours (easternLocal t)"

definition easternGetMinutes :: "int \<Rightarrow> int" where
  "easternGetMinutes t = utcGetMinutes (easternLocal t)"

definition easternRuntime :: runtime where
  "easternRuntime =
     \<lparr> getFullYear = easternGetFullYear,
       getMonth = easternGetMonth,
       getDate = easternGetDate,
       getDay = easternGetDay,
       getHours = easternGetHours,
       getMinutes = easternGetMinutes,
       newDateYMD = easternNewDate,
       setDateMidnight = easternSetDateMidnight,
       localeCompare = unitCompare,
       toLowerCase = lowerCase,
       parseGroupKeyToDate = parseKeyWith easternNewDate \<rparr>"

section \<open>Direct descriptions used in the proofs\<close>

text \<open>Removing each group that opens with a left parenthesis and closes with the next right one.\<close>

function strip_parens :: "jsstring \<Rightarrow> jsstring" where
  "strip_parens [] = []"
| "strip_parens (x # s) =
     (if x = 40 \<and> 41 \<in> set s then strip_parens (tl (dropWhile (\<lambda>c. c \<noteq> 41) s))
      else x # strip_parens s)"
  by pat_completeness auto
termination
proof (relation "measure length", goal_cases)
  case 1
  show ?case by simp
next
  case (2 x s)
  have "length (dropWhile (\<lambda>c. c \<noteq> 41) s) \<le> length s"
    by (rule length_dropWhile_le)
  then have "length (tl (dropWhile (\<lambda>c. c \<noteq> 41) s)) \<le> length s"
    by simp
  then show ?case by simp
next
  case (3 x s)
  show ?case by simp
qed

declare strip_parens.simps(2) [simp del]

text \<open>
  Replacing each group that opens with a left parenthesis and closes with the next right
  one, together with the white space before and behind it, by one space.  \<open>groupAhead s\<close>
  says that such a group, with its white space, begins at the head of \<open>s\<close>, and
  \<open>afterGroup s\<close> is what follows it.
\<close>

definition groupAhead :: "jsstring \<Rightarrow> bool" where
  "groupAhead s \<longleftrightarrow>
     (case dropWhile is_space s of [] \<Rightarrow> False | x # r \<Rightarrow> x = 40 \<and> 41 \<in> set r)"

definition afterGroup :: "jsstring \<Rightarrow> jsstring" where
  "afterGroup s = dropWhile is_space (tl (dropWhile (\<lambda>c. c \<noteq> 41) (tl (dropWhile is_space s))))"

function strip_spaced :: "jsstring \<Rightarrow> jsstring" where
  "strip_spaced [] = []"
| "strip_spaced (x # s) =
     (if groupAhead (x # s) then 32 # strip_spaced (afterGroup (x # s)) else x # strip_spaced s)"
  by pat_completeness auto
termination
proof (relation "measure length", goal_cases)
  case 1
  show ?case by simp
next
  case (2 x s)
  let ?r = "dropWhile is_space (x # s)"
  have ne: "?r \<noteq> []"
  proof
    assume "?r = []"
    with 2 show False by (simp add: groupAhead_def del: dropWhile.simps)
  qed
  have "length (afterGroup (x # s)) \<le> length (tl (dropWhile (\<lambda>c. c \<noteq> 41) (tl ?r)))"
    unfolding afterGroup_def by (rule length_dropWhile_le)
  also have "\<dots> \<le> length (dropWhile (\<lambda>c. c \<noteq> 41) (tl ?r))" by simp
  also have "\<dots> \<le> length (tl ?r)" by (rule length_dropWhile_le)
  also have "\<dots> < length ?r" using ne by (cases ?r) simp_all
  also have "\<dots> \<le> length (x # s)" by (rule length_dropWhile_le)
  finally show ?case by simp
next
  case (3 x s)
  show ?case by simp
qed

declare strip_spaced.simps(2) [simp del]

text \<open>No left parenthesis of the string is followed by a right one.\<close>

fun noGroup :: "jsstring \<Rightarrow> bool" where
  "noGroup [] = True"
| "noGroup (x # s) = (\<not> (x = 40 \<and> 41 \<in> set s) \<and> noGroup s)"

text \<open>Doubling each double quote.\<close>

definition doubleQuotes :: "jsstring \<Rightarrow> jsstring" where
  "doubleQuotes v = concat (map (\<lambda>c. if c = 34 then [34, 34] else [c]) v)"

text \<open>
  Reading one field of a CSV record as RFC 4180 defines it: a field that opens with a
  double quote runs to the closing one, a doubled quote inside standing for one quote;
  any other field runs to the next comma or line break.  The result is the field and the
  rest of the input, \<open>None\<close> when a quoted field is not closed.
\<close>

fun quotedField :: "jsstring \<Rightarrow> (jsstring \<times> jsstring) option" where
  "quotedField [] = None"
| "quotedField (x # s) =
     (if x = 34
      then (case s of
              y # s' \<Rightarrow> if y = 34 then map_option (\<lambda>r. (34 # fst r, snd r)) (quotedField s') else Some ([], s)
            | [] \<Rightarrow> Some ([], s))
      else map_option (\<lambda>r. (x # fst r, snd r)) (quotedField s))"

definition fieldEnd :: "nat \<Rightarrow> bool" where
  "fieldEnd c \<longleftrightarrow> c = 44 \<or> c = 10 \<or> c = 13"

definition parseField :: "jsstring \<Rightarrow> (jsstring \<times> jsstring) option" where
  "parseField s =
     (case s of
        [] \<Rightarrow> Some ([], [])
      | x # s' \<Rightarrow> if x = 34 then quotedField s'
                  else Some (takeWhile (\<lambda>c. \<not> fieldEnd c) s, dropWhile (\<lambda>c. \<not> fieldEnd c) s))"


text \<open>The marker pattern as the specification writes it, \<^verbatim>\<open>/end\s*(overnight|hs|housesit)/i\<close>.\<close>

definition endOvernightSpec :: regex where
  "endOvernightSpec = seqs [Str (lit ''end''), StarC Space, words [''overnight'', ''hs'', ''housesit'']]"

text \<open>
  The events that the check of an event on its own start date lets pass: those that are
  no end markers, overnight events only when their start has a local midnight.
\<close>

definition retained :: "runtime \<Rightarrow> eventProcessor \<Rightarrow> event \<Rightarrow> bool" where
  "retained rt ep ev \<longleftrightarrow>
     \<not> isEndOvernightMarker rt ev \<and> (ep_isOvernightEvent ep ev \<longrightarrow> midnight rt (start ev) \<noteq> InvalidDate)"

text \<open>
  What \<^verbatim>\<open>generateTextList\<close> writes once its events are filtered and sorted: the message for
  an empty list, or the header and the body.
\<close>

definition textReport :: "runtime \<Rightarrow> eventProcessor \<Rightarrow> event list \<Rightarrow> options \<Rightarrow> jsstring" where
  "textReport rt ep filteredEvents opts =
     (if filteredEvents = [] then lit ''No events found in the selected date range.''
      else (let sortedByDate = jsSort (\<lambda>a b. num_sub (getTime (start a)) (getTime (start b))) filteredEvents;
                firstEventDate = formatDate rt (start (hd sortedByDate));
                lastEventDate = formatDate rt (start (last sortedByDate));
                filterLabel = (if workEventsOnly opts then lit ''Work Events'' else lit ''All Events'');
                n = int (length filteredEvents);
                output = filterLabel @ lit '' Summary'' @ [10]
                         @ firstEventDate @ lit '' - '' @ lastEventDate @ [10]
                         @ lit ''Total: '' @ String n @ lit '' event'' @ (if n \<noteq> 1 then lit ''s'' else []) @ [10]
                         @ replicate 50 61 @ [10, 10];
                groupLevels = filter (\<lambda>level. level \<noteq> [] \<and> level \<noteq> lit ''none'') (split_on 45 (groupBy opts))
            in if groupLevels \<noteq> []
               then trim (output @ generateDynamicGrouping rt ep filteredEvents groupLevels (includeTime opts)
                                     (includeLocation opts) (groupSort opts) (eventSort opts))
               else trim (output @ generateSimpleList rt ep filteredEvents (includeTime opts) (includeLocation opts))))"

text \<open>The header line of the CSV output.\<close>

definition csvHeader :: "bool \<Rightarrow> jsstring" where
  "csvHeader inclLocation =
     (if inclLocation then lit ''Date,Time,Client/Pet,Service Type,Duration,Location'' @ [10]
      else lit ''Date,Time,Client/Pet,Service Type,Duration'' @ [10])"

section \<open>Sample events\<close>

text \<open>
  An overnight stay from 15 November 2025, 18:00 UTC, to 17 November 2025, 09:00 UTC, the
  marker that ends it, and a visit whose title holds the letters of a marker inside a word.
\<close>

definition sampleOvernight :: event where
  "sampleOvernight = \<lparr> title = Some (lit ''Rocky & Bella Overnight''), start = Date 1763229600000,
      endTime = Date 1763370000000, location = None, etype = Some (lit ''overnight'') \<rparr>"

definition sampleMarker :: event where
  "sampleMarker = \<lparr> title = Some (lit ''End Overnight Rocky''), start = Date 1763370000000,
      endTime = Date 1763370000000, location = None, etype = None \<rparr>"



definition staleOvernight :: event where
  "staleOvernight = \<lparr> title = Some (lit ''Rex Overnight''), start = InvalidDate,
      endTime = InvalidDate, location = None, etype = Some (lit ''overnight'') \<rparr>"

text \<open>
  Options for a flat report of all events, for a report of all events grouped by date,
  and for a CSV file of all events.
\<close>

definition flatOptions :: options where
  "flatOptions = \<lparr> startDate = None, endDate = None, includeTime = False, includeLocation = False,
      groupBy = lit ''none'', groupSort = \<lparr>sortBy = lit ''date'', sortOrder = lit ''asc''\<rparr>,
      eventSort = [\<lparr>sortBy = lit ''time'', sortOrder = lit ''asc''\<rparr>], workEventsOnly = False \<rparr>"


definition allEventsCsv :: csvOptions where
  "allEventsCsv = \<lparr> csv_startDate = None, csv_endDate = None, csv_workEventsOnly = False,
      csv_sortBy = lit ''date'', csv_secondarySort = None, csv_sortOrder = lit ''asc'',
      csv_includeLocation = False \<rparr>"

text \<open>Two visits to one client on 15 November 2025, at 10:00 and at 12:00 UTC.\<close>

definition milo30 :: event where
  "milo30 = \<lparr> title = Some (lit ''Milo 30''), start = Date 1763200800000, endTime = Date 1763202600000,
      location = None, etype = None \<rparr>"

definition milo45 :: event where
  "milo45 = \<lparr> title = Some (lit ''Milo 45''), start = Date 1763208000000, endTime = Date 1763210700000,
      location = None, etype = None \<rparr>"

text \<open>
  A visit to another client on 15 November 2025, at 11:00 UTC, and a second record of the
  visit to Milo at 10:00, which differs from the first in its location only.
\<close>

definition zoe30 :: event where
  "zoe30 = \<lparr> title = Some (lit ''Zoe 30''), start = Date 1763204400000, endTime = Date 1763206200000,
      location = None, etype = None \<rparr>"

definition miloTwin :: event where
  "miloTwin = \<lparr> title = Some (lit ''Milo 30''), start = Date 1763200800000, endTime = Date 1763202600000,
      location = Some (lit ''12 Elm Street''), etype = None \<rparr>"

text \<open>
  A consistent comparison function, as the sort of the runtime requires: swapping the
  arguments swaps the sign, and the order it induces is transitive.
\<close>

definition consistent :: "('a \<Rightarrow> 'a \<Rightarrow> int) \<Rightarrow> bool" where
  "consistent c \<longleftrightarrow>
     (\<forall>a b. sgn (c b a) = - sgn (c a b)) \<and> (\<forall>a b d. c a b \<le> 0 \<and> c b d \<le> 0 \<longrightarrow> c a d \<le> 0)"

text \<open>
  The order that a sort specification asks for, as the specification words it: an event
  \<open>x\<close> may stand before an event \<open>y\<close> when, on the first level on which the two differ,
  \<open>x\<close> comes first in the direction of that level, and, when no level tells them apart,
  when \<open>x\<close> starts no later than \<open>y\<close>.
\<close>

fun inLevelOrder :: "runtime \<Rightarrow> eventProcessor \<Rightarrow> sortLevel list \<Rightarrow> event \<Rightarrow> event \<Rightarrow> bool" where
  "inLevelOrder rt ep [] x y =
     (case (start x, start y) of (Date s, Date t) \<Rightarrow> s \<le> t | _ \<Rightarrow> False)"
| "inLevelOrder rt ep (lv # lvs) x y =
     (let c = compareEvents rt ep x y (sortBy lv)
      in if c = Some 0 then inLevelOrder rt ep lvs x y
         else if sortOrder lv = lit ''desc'' then num_gt c (Some 0) else num_lt c (Some 0))"

text \<open>
  For events with valid start dates the comparisons of the exporter are integers: the
  comparison by one field and the comparison function of the multi-level sort, written
  on the time values.
\<close>

definition timeValue :: "date \<Rightarrow> int" where
  "timeValue d = (case d of Date t \<Rightarrow> t | InvalidDate \<Rightarrow> 0)"

definition eventsOrder :: "runtime \<Rightarrow> eventProcessor \<Rightarrow> event \<Rightarrow> event \<Rightarrow> jsstring \<Rightarrow> int" where
  "eventsOrder rt ep a b sortField =
     (if sortField = lit ''client'' then
        localeCompare rt (toLowerCase rt (extractClientName (title a))) (toLowerCase rt (extractClientName (title b)))
      else if sortField = lit ''service'' then
        localeCompare rt (toLowerCase rt (formatServiceType rt ep a)) (toLowerCase rt (formatServiceType rt ep b))
      else if sortField = lit ''time'' then
        (getHours rt (timeValue (start a)) * 60 + getMinutes rt (timeValue (start a)))
        - (getHours rt (timeValue (start b)) * 60 + getMinutes rt (timeValue (start b)))
      else timeValue (start a) - timeValue (start b))"

fun levelsOrder :: "runtime \<Rightarrow> eventProcessor \<Rightarrow> sortLevel list \<Rightarrow> event \<Rightarrow> event \<Rightarrow> int" where
  "levelsOrder rt ep [] a b = timeValue (start a) - timeValue (start b)"
| "levelsOrder rt ep (level # levels) a b =
     (let comparison = eventsOrder rt ep a b (sortBy level);
          comparison = (if sortOrder level = lit ''desc'' then - comparison else comparison)
      in if comparison \<noteq> 0 then comparison else levelsOrder rt ep levels a b)"

text \<open>
  A stay of one night in New York, from 2 November 2025, 18:00, to 3 November 2025, 09:00
  local time (23:00 UTC and 14:00 UTC).
\<close>

definition fallBackNight :: event where
  "fallBackNight = \<lparr> title = Some (lit ''Rex Overnight''), start = Date 1762124400000, endTime = Date 1762178400000,
      location = None, etype = Some (lit ''overnight'') \<rparr>"

text \<open>The fields of the CSV row of an event, before escaping, and their joining by commas.\<close>

definition csvFields :: "runtime \<Rightarrow> eventProcessor \<Rightarrow> bool \<Rightarrow> event \<Rightarrow> jsstring list" where
  "csvFields rt ep inclLocation ev =
     [formatDate rt (start ev), formatTime rt (start ev), extractClientName (title ev),
      formatServiceType rt ep ev, formatDuration ev]
     @ (if inclLocation then [case location ev of Some l \<Rightarrow> l | None \<Rightarrow> []] else [])"

fun joinComma :: "jsstring list \<Rightarrow> jsstring" where
  "joinComma [] = []"
| "joinComma [x] = x"
| "joinComma (x # y # ys) = x @ [44] @ joinComma (y # ys)"

text \<open>A visit whose client name holds a comma.\<close>

definition smithVisit :: event where
  "smithVisit = \<lparr> title = Some (lit ''Smith, Jr. 30''), start = Date 1763200800000, endTime = Date 1763202600000,
      location = None, etype = None \<rparr>"

text \<open>The four work patterns, tested on a cleaned title.\<close>

definition anyWorkPattern :: "jsstring \<Rightarrow> bool" where
  "anyWorkPattern c \<longleftrightarrow>
     rx_test True meetAndGreet c \<or> rx_test True minutesSuffix c \<or> rx_test True houseSitSuffix c
     \<or> rx_test True nailTrim c"

text \<open>The three work patterns of the mock processor, tested on a cleaned title.\<close>

definition anyMockPattern :: "jsstring \<Rightarrow> bool" where
  "anyMockPattern c \<longleftrightarrow>
     rx_test True meetAndGreet c \<or> rx_test True minutesSuffix c \<or> rx_test True houseSitSuffix c"



section \<open>Properties of strings\<close>


lemma dropWhile_rev_keep_hd:
  assumes "u \<noteq> []" "\<not> P (hd u)"
  shows "\<exists>ys. rev (dropWhile P (rev u)) = hd u # ys"
proof -
  from assms obtain x xs where u: "u = x # xs" by (cases u) auto
  have "dropWhile P (rev xs @ [x]) = dropWhile P (rev xs) @ [x]"
    using assms u by (simp add: dropWhile_append3)
  then show ?thesis using u by simp
qed

lemma trim_idem: "trim (trim s) = trim s"
proof (cases "dropWhile is_space s = []")
  case True
  then have t: "trim s = []" by (simp only: trim_def rev.simps dropWhile.simps)
  have e: "trim [] = []" by (simp add: trim_def)
  show ?thesis by (simp only: t e)
next
  case False
  define u where "u = dropWhile is_space s"
  have hd: "\<not> is_space (hd u)" using False unfolding u_def by (simp add: hd_dropWhile)
  have ne: "u \<noteq> []" unfolding u_def by (rule False)
  obtain ys where v: "rev (dropWhile is_space (rev u)) = hd u # ys"
    using dropWhile_rev_keep_hd [of u is_space, OF ne hd] by blast
  have 1: "dropWhile is_space (trim s) = trim s"
    unfolding trim_def u_def [symmetric] v using hd by simp
  have 2: "dropWhile is_space (rev (trim s)) = rev (trim s)"
    unfolding trim_def u_def [symmetric] by (simp add: dropWhile_idem)
  show ?thesis
    using 1 2 by (metis rev_rev_ident trim_def)
qed

text \<open>The equations that evaluate the matcher and the classifier on a given string.\<close>

lemmas ev = lit_def trim_def is_space_def is_word_def canon_def at_boundary_def rx_test_def rx_exec_def
  rx_remove_first_def rx_replace_all_def PlusC_def seqMarker_def meetAndGreet_def minutesSuffix_def
  houseSitSuffix_def nailTrim_def offDay_def personalKeywords_def medicalPersonal_def household_def
  socialBusiness_def personalEventPatterns_def parenGroup_def cleanTitle_def isDefinitelyPersonal_def
  isWorkEvent_def starSign_def processor_personalEventPatterns_def processor_isPersonalEvent_def
  spacedParenGroup_def processor_isWorkEvent_def Let_def

lemma personal_empty: "\<not> list_ex (\<lambda>pattern. rx_test True pattern []) personalEventPatterns"
  by (simp add: ev)

lemma isDefinitelyPersonal_trim:
  "isDefinitelyPersonal (Some t) \<Longrightarrow> isDefinitelyPersonal (Some (trim t))"
  using personal_empty
  by (auto simp: isDefinitelyPersonal_def trim_idem Let_def split: if_splits)



section \<open>Buckets and nested groups\<close>
















section \<open>The classifier: personal precedence\<close>

text \<open>
  Claim C1.  Whenever a title matches a personal pattern, \<open>isWorkEvent\<close> is false, for a
  title given as a string and for an event object carrying it, whatever the work patterns
  say; the same holds of the mock processor of the filtering tests; and
  \<open>isWorkEvent("30 minute massage")\<close> is false.
\<close>

theorem personal_precedence:
  "(\<forall>t. isDefinitelyPersonal (Some t) \<longrightarrow>
        \<not> isWorkEvent (TitleArg t) \<and> \<not> isWorkEvent (EventArg (Some t)))
   \<and> (\<forall>t. processor_isPersonalEvent (Some t) \<longrightarrow> \<not> processor_isWorkEvent (Some t))
   \<and> \<not> isWorkEvent (TitleArg (lit ''30 minute massage''))
   \<and> \<not> processor_isWorkEvent (Some (lit ''30 minute massage''))"
proof (intro conjI allI impI)
  fix t assume p: "isDefinitelyPersonal (Some t)"
  then have "isDefinitelyPersonal (Some (trim t))" by (rule isDefinitelyPersonal_trim)
  then show "\<not> isWorkEvent (TitleArg t)" "\<not> isWorkEvent (EventArg (Some t))"
    by (simp_all add: isWorkEvent_def Let_def)
next
  fix t assume "processor_isPersonalEvent (Some t)"
  then show "\<not> processor_isWorkEvent (Some t)"
    by (simp add: processor_isWorkEvent_def)
next
  show "\<not> isWorkEvent (TitleArg (lit ''30 minute massage''))" by (simp add: ev)
next
  show "\<not> processor_isWorkEvent (Some (lit ''30 minute massage''))" by (simp add: ev)
qed

text \<open>The title \<open>Massage 30\<close> matches a personal pattern and the trailing duration pattern.\<close>

theorem personal_precedence_witness:
  "isDefinitelyPersonal (Some (lit ''Massage 30''))
   \<and> processor_isPersonalEvent (Some (lit ''Massage 30''))
   \<and> rx_test True minutesSuffix (cleanTitle (Some (trim (lit ''Massage 30''))))
   \<and> \<not> isWorkEvent (TitleArg (lit ''Massage 30''))
   \<and> \<not> isWorkEvent (EventArg (Some (lit ''Massage 30'')))
   \<and> \<not> processor_isWorkEvent (Some (lit ''Massage 30''))"
proof -
  have p: "isDefinitelyPersonal (Some (lit ''Massage 30''))" by (simp add: ev)
  have q: "processor_isPersonalEvent (Some (lit ''Massage 30''))" by (simp add: ev)
  have w: "rx_test True minutesSuffix (cleanTitle (Some (trim (lit ''Massage 30''))))" by (simp add: ev)
  from personal_precedence p q
  have "\<not> isWorkEvent (TitleArg (lit ''Massage 30'')) \<and> \<not> isWorkEvent (EventArg (Some (lit ''Massage 30'')))
        \<and> \<not> processor_isWorkEvent (Some (lit ''Massage 30''))"
    by blast
  with p q w show ?thesis by blast
qed


section \<open>Running the exporter on given events\<close>

text \<open>The equations that evaluate the exporter in the UTC runtime.\<close>

lemmas ev_export = titleOrEmpty_def isEndOvernightMarker_def endOvernight_def endOvernightSpec_def
  lowerCase_def lowerUnit_def getTime_def dateField_def num_add_def num_sub_def num_mul_def num_neg_def
  num_eq_def num_lt_def num_gt_def num_ge_def numString_def js_rem_def timeClip_def
  shouldIncludeEventOnDate_def midnight_def calculateOvernightNights_def ceil_div_def formatServiceType_def
  durationToken_def beforeDash_def durationTail_def markerTail_def extractClientName_def formatDate_def
  formatTime_def String_def padStart2_def digits.simps compareEvents_def getGroupKey_def getWeekStart_def
  getWeekLabel_def getMonthLabel_def onStartDate_def
  utcRuntime_def utcGetFullYear_def utcGetMonth_def utcGetDate_def utcGetDay_def utcGetHours_def utcGetMinutes_def
  sampleProcessor_def typeIsOvernight_def classifiedAsWork_def civil_def daysFromCivil_def utcMidnight_def
  utcNewDate_def utcMonthDay_def utcSetDateMidnight_def

section \<open>The sort keeps the elements\<close>

lemma set_insertBy: "set (insertBy cmp x ys) = insert x (set ys)"
  by (induction ys) auto

lemma set_jsSort: "set (jsSort cmp xs) = set xs"
  unfolding jsSort_def by (induction xs) (simp_all add: set_insertBy)

lemma length_insertBy: "length (insertBy cmp x ys) = Suc (length ys)"
  by (induction ys) auto

lemma length_jsSort: "length (jsSort cmp xs) = length xs"
  unfolding jsSort_def by (induction xs) (simp_all add: length_insertBy)

lemma sort_single: "sortEventsMultiLevel rt ep [e] lv = [e]"
  by (simp add: sortEventsMultiLevel_def jsSort_def Let_def)

lemma sortEvents_single: "sortEvents rt ep [e] p s ord = [e]"
  by (simp add: sortEvents_def jsSort_def)




section \<open>Overnight stays and their end markers\<close>

lemma marker_test: "isEndOvernightMarker rt ev = rx_test True endOvernight (toLowerCase rt (titleOrEmpty ev))"
  by (simp add: isEndOvernightMarker_def)


lemma sample_marker: "rx_test True endOvernight (toLowerCase utcRuntime (titleOrEmpty sampleMarker))"
  by (simp add: sampleMarker_def ev ev_export cong: let_weak_cong)

lemma sample_overnight:
  "\<not> rx_test True endOvernight (toLowerCase utcRuntime (titleOrEmpty sampleOvernight))
   \<and> ep_isOvernightEvent sampleProcessor sampleOvernight"
  by (simp add: sampleOvernight_def ev ev_export cong: let_weak_cong)


lemma sample_stale:
  "\<not> rx_test True endOvernight (toLowerCase utcRuntime (titleOrEmpty staleOvernight))"
  "\<not> rx_test True endOvernightSpec (titleOrEmpty staleOvernight)"
  "ep_isOvernightEvent sampleProcessor staleOvernight"
  "start staleOvernight = InvalidDate"
  by (simp_all add: staleOvernight_def ev ev_export cong: let_weak_cong)

lemma sample_midnights:
  "midnight utcRuntime (start sampleOvernight) = Date 1763164800000"
  "midnight utcRuntime (Date 1763200000000) = Date 1763164800000"
  "midnight utcRuntime (Date 1763294400000) = Date 1763251200000"
  "midnight utcRuntime (endTime sampleOvernight) = Date 1763337600000"
  by (simp_all add: sampleOvernight_def ev_export Let_def cong: let_weak_cong)



lemma midnight_invalid: "midnight rt InvalidDate = InvalidDate"
  by (simp add: midnight_def)

lemma same_day_check:
  "num_eq (getTime (midnight rt d)) (getTime (midnight rt cd))
     = (midnight rt cd = midnight rt d \<and> midnight rt cd \<noteq> InvalidDate)"
  by (cases "midnight rt d"; cases "midnight rt cd") (auto simp: num_eq_def getTime_def)

lemma onStartDate_iff: "onStartDate rt ep ev = retained rt ep ev"
  by (auto simp: onStartDate_def shouldIncludeEventOnDate_def retained_def same_day_check Let_def)

lemma csvRow_empty_iff: "(csvRow rt ep il ev = []) = (\<not> retained rt ep ev)"
  using onStartDate_iff [of rt ep ev]
  by (simp add: csvRow_def onStartDate_def Let_def)

lemma generateTextList_report:
  "generateTextList rt ep events opts =
     textReport rt ep
       (sortEventsMultiLevel rt ep
          (filter (onStartDate rt ep) (filter (inRange ep (workEventsOnly opts) (startDate opts) (endDate opts)) events))
          (eventSort opts)) opts"
  by (simp add: generateTextList_def textReport_def Let_def)

lemma concat_rows:
  "concat (map (csvRow rt ep il) evs) = concat (map (csvRow rt ep il) (filter (retained rt ep) evs))"
  by (induction evs) (simp_all add: csvRow_empty_iff)

lemma generateCSV_rows:
  "generateCSV rt ep events opts =
     csvHeader (csv_includeLocation opts)
     @ concat (map (csvRow rt ep (csv_includeLocation opts))
         (filter (retained rt ep)
            (sortEvents rt ep (filter (inRange ep (csv_workEventsOnly opts) (csv_startDate opts) (csv_endDate opts)) events)
               (csv_sortBy opts) (csv_secondarySort opts) (csv_sortOrder opts))))"
  using concat_rows [of rt ep "csv_includeLocation opts"]
  by (simp add: generateCSV_def csvHeader_def Let_def)

lemma sample_retained:
  "retained utcRuntime sampleProcessor sampleOvernight"
  "\<not> retained utcRuntime sampleProcessor sampleMarker"
  "\<not> retained utcRuntime sampleProcessor staleOvernight"
  using sample_marker sample_overnight sample_stale
  by (simp_all add: retained_def marker_test sample_midnights midnight_invalid)

lemma sample_in_range:
  "inRange sampleProcessor False None None ev"
  by (simp add: inRange_def)

lemma sample_service:
  "formatServiceType utcRuntime sampleProcessor sampleOvernight = lit ''Overnight (2 nights)''"
proof -
  have o: "ep_isOvernightEvent sampleProcessor sampleOvernight" using sample_overnight by simp
  have "calculateOvernightNights utcRuntime sampleProcessor sampleOvernight = Some 2"
    by (simp add: calculateOvernightNights_def o sample_midnights num_sub_def getTime_def ceil_div_def)
  then have "formatServiceType utcRuntime sampleProcessor sampleOvernight
               = lit ''Overnight ('' @ (String 2 @ lit '' nights'') @ lit '')''"
    by (simp add: formatServiceType_def o num_eq_def numString_def Let_def)
  also have "\<dots> = lit ''Overnight (2 nights)''"
    by (simp add: String_def digits.simps lit_def)
  finally show ?thesis .
qed

lemma sample_fields:
  "formatDate utcRuntime (start sampleOvernight) = lit ''11/15/2025''"
  "formatTime utcRuntime (start sampleOvernight) = lit ''6:00 PM''"
  "extractClientName (title sampleOvernight) = lit ''Rocky & Bella Overnight''"
  "formatDuration sampleOvernight = lit ''39h 0m''"
  by (simp_all add: sampleOvernight_def formatDuration_def round_div_def ev ev_export cong: let_weak_cong)

lemma sample_line:
  "simpleLine utcRuntime sampleProcessor False False sampleOvernight
     = lit ''11/15/2025 | Rocky & Bella Overnight | Overnight (2 nights)'' @ [10]"
proof -
  have "location sampleOvernight = None" by (simp add: sampleOvernight_def)
  then show ?thesis
    by (simp add: simpleLine_def sample_fields sample_service Let_def) (simp add: lit_def)
qed

lemma sample_report:
  "textReport utcRuntime sampleProcessor [sampleOvernight] flatOptions
     = lit ''All Events Summary'' @ [10] @ lit ''11/15/2025 - 11/15/2025'' @ [10] @ lit ''Total: 1 event'' @ [10]
       @ replicate 50 61 @ [10, 10]
       @ lit ''11/15/2025 | Rocky & Bella Overnight | Overnight (2 nights)''"
proof -
  have g: "filter (\<lambda>level. level \<noteq> [] \<and> level \<noteq> lit ''none'') (split_on 45 (groupBy flatOptions)) = []"
    by (simp add: flatOptions_def lit_def)
  have o: "\<not> workEventsOnly flatOptions" "\<not> includeTime flatOptions" "\<not> includeLocation flatOptions"
    by (simp_all add: flatOptions_def)
  have "textReport utcRuntime sampleProcessor [sampleOvernight] flatOptions
          = trim (lit ''All Events'' @ lit '' Summary'' @ [10] @ lit ''11/15/2025'' @ lit '' - '' @ lit ''11/15/2025'' @ [10]
                  @ lit ''Total: '' @ String 1 @ lit '' event'' @ [10] @ replicate 50 61 @ [10, 10]
                  @ lit ''11/15/2025 | Rocky & Bella Overnight | Overnight (2 nights)'' @ [10])"
    by (simp add: textReport_def g o jsSort_def generateSimpleList_def sample_line sample_fields Let_def)
  also have "\<dots> = lit ''All Events Summary'' @ [10] @ lit ''11/15/2025 - 11/15/2025'' @ [10] @ lit ''Total: 1 event'' @ [10]
       @ replicate 50 61 @ [10, 10]
       @ lit ''11/15/2025 | Rocky & Bella Overnight | Overnight (2 nights)''"
    by (simp add: trim_def is_space_def lit_def String_def digits.simps)
  finally show ?thesis .
qed





lemma sample_row:
  "csvRow utcRuntime sampleProcessor False sampleOvernight
     = lit ''11/15/2025,6:00 PM,Rocky & Bella Overnight,Overnight (2 nights),39h 0m'' @ [10]"
proof -
  have i: "shouldIncludeEventOnDate utcRuntime sampleProcessor sampleOvernight (Some (start sampleOvernight))"
    using onStartDate_iff [of utcRuntime sampleProcessor sampleOvernight] sample_retained(1)
    by (simp add: onStartDate_def)
  have e: "escapeCSV (lit ''Rocky & Bella Overnight'') = lit ''Rocky & Bella Overnight''"
    "escapeCSV (lit ''Overnight (2 nights)'') = lit ''Overnight (2 nights)''"
    by (simp_all add: escapeCSV_def lit_def)
  show ?thesis
    by (simp add: csvRow_def i sample_fields sample_service e Let_def) (simp add: lit_def)
qed




text \<open>
  Claim C10 says that the check of an event on its own start date always succeeds.  It
  fails for an overnight stay whose start cannot be read as a date: the time value of its
  midnight is \<^verbatim>\<open>NaN\<close>, which is not equal to itself.  The stay \<open>Rex Overnight\<close> is no end
  marker, yet the continuation step removes it, and both generators leave it out.
\<close>

theorem continuation_step_counterexample:
  "ep_isOvernightEvent sampleProcessor staleOvernight
   \<and> \<not> isEndOvernightMarker utcRuntime staleOvernight
   \<and> \<not> rx_test True endOvernightSpec (titleOrEmpty staleOvernight)
   \<and> \<not> shouldIncludeEventOnDate utcRuntime sampleProcessor staleOvernight (Some (start staleOvernight))
   \<and> filter (onStartDate utcRuntime sampleProcessor) [staleOvernight] = []
   \<and> generateTextList utcRuntime sampleProcessor [staleOvernight] flatOptions
       = lit ''No events found in the selected date range.''
   \<and> generateCSV utcRuntime sampleProcessor [staleOvernight] allEventsCsv
       = lit ''Date,Time,Client/Pet,Service Type,Duration'' @ [10]"
proof -
  have r: "\<not> onStartDate utcRuntime sampleProcessor staleOvernight"
    using sample_retained(3) by (simp add: onStartDate_iff)
  then have s: "\<not> shouldIncludeEventOnDate utcRuntime sampleProcessor staleOvernight (Some (start staleOvernight))"
    by (simp add: onStartDate_def)
  have o: "\<not> workEventsOnly flatOptions" "startDate flatOptions = None" "endDate flatOptions = None"
    "\<not> csv_workEventsOnly allEventsCsv" "csv_startDate allEventsCsv = None" "csv_endDate allEventsCsv = None"
    "\<not> csv_includeLocation allEventsCsv"
    by (simp_all add: flatOptions_def allEventsCsv_def)
  have t: "generateTextList utcRuntime sampleProcessor [staleOvernight] flatOptions
       = lit ''No events found in the selected date range.''"
    by (simp add: generateTextList_report o sample_in_range r sortEventsMultiLevel_def jsSort_def textReport_def)
  have c: "generateCSV utcRuntime sampleProcessor [staleOvernight] allEventsCsv
       = lit ''Date,Time,Client/Pet,Service Type,Duration'' @ [10]"
    by (simp add: generateCSV_rows o sample_in_range sortEvents_single sample_retained csvHeader_def)
  show ?thesis using r s t c sample_stale by (simp add: marker_test)
qed

text \<open>
  Claim C10, amended.  Both generators check each event on its own start date, where the
  comparison of the start day with itself succeeds exactly when that day is a valid date.
  So the text generator reports the events of the range that are no end markers (the
  lower-cased title tested against the pattern of the source) and no overnight stays
  without a valid start day, and the CSV generator writes the header and one row for each
  such event.  Among the events whose start has a valid local midnight, and among the
  events that are no overnight stays, the step removes exactly the end markers.
\<close>

theorem continuation_step_retention:
  "generateTextList rt ep events opts =
     textReport rt ep
       (sortEventsMultiLevel rt ep
          (filter (retained rt ep) (filter (inRange ep (workEventsOnly opts) (startDate opts) (endDate opts)) events))
          (eventSort opts)) opts
   \<and> generateCSV rt ep events copts =
       csvHeader (csv_includeLocation copts)
       @ concat (map (csvRow rt ep (csv_includeLocation copts))
           (filter (retained rt ep)
              (sortEvents rt ep (filter (inRange ep (csv_workEventsOnly copts) (csv_startDate copts) (csv_endDate copts)) events)
                 (csv_sortBy copts) (csv_secondarySort copts) (csv_sortOrder copts))))
   \<and> (\<forall>ev. (csvRow rt ep il ev = []) = (\<not> retained rt ep ev))
   \<and> (\<forall>ev. shouldIncludeEventOnDate rt ep ev (Some (start ev)) = retained rt ep ev)
   \<and> (\<forall>ev. retained rt ep ev =
         (\<not> rx_test True endOvernight (toLowerCase rt (titleOrEmpty ev))
          \<and> (ep_isOvernightEvent ep ev \<longrightarrow> midnight rt (start ev) \<noteq> InvalidDate)))
   \<and> (\<forall>ev. midnight rt (start ev) \<noteq> InvalidDate \<or> \<not> ep_isOvernightEvent ep ev \<longrightarrow>
         retained rt ep ev = (\<not> rx_test True endOvernight (toLowerCase rt (titleOrEmpty ev))))
   \<and> (\<forall>ev. start ev = InvalidDate \<and> ep_isOvernightEvent ep ev \<longrightarrow> \<not> retained rt ep ev)"
proof (intro conjI allI impI)
  have "filter (onStartDate rt ep) xs = filter (retained rt ep) xs" for xs
    by (rule filter_cong) (simp_all add: onStartDate_iff)
  note h = this
  show "generateTextList rt ep events opts =
     textReport rt ep
       (sortEventsMultiLevel rt ep
          (filter (retained rt ep) (filter (inRange ep (workEventsOnly opts) (startDate opts) (endDate opts)) events))
          (eventSort opts)) opts"
    by (simp only: generateTextList_report h)
next
  show "generateCSV rt ep events copts =
       csvHeader (csv_includeLocation copts)
       @ concat (map (csvRow rt ep (csv_includeLocation copts))
           (filter (retained rt ep)
              (sortEvents rt ep (filter (inRange ep (csv_workEventsOnly copts) (csv_startDate copts) (csv_endDate copts)) events)
                 (csv_sortBy copts) (csv_secondarySort copts) (csv_sortOrder copts))))"
    by (rule generateCSV_rows)
next
  fix ev
  show "(csvRow rt ep il ev = []) = (\<not> retained rt ep ev)" by (rule csvRow_empty_iff)
  show "shouldIncludeEventOnDate rt ep ev (Some (start ev)) = retained rt ep ev"
    using onStartDate_iff [of rt ep ev] by (simp add: onStartDate_def)
  show "retained rt ep ev =
         (\<not> rx_test True endOvernight (toLowerCase rt (titleOrEmpty ev))
          \<and> (ep_isOvernightEvent ep ev \<longrightarrow> midnight rt (start ev) \<noteq> InvalidDate))"
    by (simp add: retained_def marker_test)
next
  fix ev
  assume "midnight rt (start ev) \<noteq> InvalidDate \<or> \<not> ep_isOvernightEvent ep ev"
  then show "retained rt ep ev = (\<not> rx_test True endOvernight (toLowerCase rt (titleOrEmpty ev)))"
    by (auto simp: retained_def marker_test)
next
  fix ev
  assume "start ev = InvalidDate \<and> ep_isOvernightEvent ep ev"
  then show "\<not> retained rt ep ev" by (simp add: retained_def midnight_invalid)
qed

text \<open>
  The stay from 15 to 17 November 2025, the marker that ends it and the stay without
  dates: the two generators write the first of the three and nothing else.
\<close>

theorem continuation_step_retention_witness:
  "retained utcRuntime sampleProcessor sampleOvernight
   \<and> \<not> retained utcRuntime sampleProcessor sampleMarker
   \<and> \<not> retained utcRuntime sampleProcessor staleOvernight
   \<and> midnight utcRuntime (start sampleOvernight) \<noteq> InvalidDate
   \<and> midnight utcRuntime (start sampleMarker) \<noteq> InvalidDate
   \<and> csvRow utcRuntime sampleProcessor False sampleMarker = []
   \<and> generateTextList utcRuntime sampleProcessor [sampleOvernight, sampleMarker, staleOvernight] flatOptions
       = lit ''All Events Summary'' @ [10] @ lit ''11/15/2025 - 11/15/2025'' @ [10] @ lit ''Total: 1 event'' @ [10]
         @ replicate 50 61 @ [10, 10]
         @ lit ''11/15/2025 | Rocky & Bella Overnight | Overnight (2 nights)''
   \<and> generateCSV utcRuntime sampleProcessor [sampleOvernight] allEventsCsv
       = lit ''Date,Time,Client/Pet,Service Type,Duration'' @ [10]
         @ lit ''11/15/2025,6:00 PM,Rocky & Bella Overnight,Overnight (2 nights),39h 0m'' @ [10]"
proof -
  note t = continuation_step_retention [of utcRuntime sampleProcessor _ flatOptions allEventsCsv False]
  have o: "\<not> workEventsOnly flatOptions" "startDate flatOptions = None" "endDate flatOptions = None"
    "\<not> csv_workEventsOnly allEventsCsv" "csv_startDate allEventsCsv = None" "csv_endDate allEventsCsv = None"
    "\<not> csv_includeLocation allEventsCsv"
    by (simp_all add: flatOptions_def allEventsCsv_def)
  have m: "midnight utcRuntime (start sampleMarker) \<noteq> InvalidDate"
    by (simp add: sampleMarker_def ev_export Let_def cong: let_weak_cong)
  from t sample_marker m have r2: "\<not> retained utcRuntime sampleProcessor sampleMarker" by blast
  from t sample_stale have r3: "\<not> retained utcRuntime sampleProcessor staleOvernight" by blast
  from t sample_overnight have r1: "retained utcRuntime sampleProcessor sampleOvernight"
    by (simp add: sample_midnights)
  from t r2 have c: "csvRow utcRuntime sampleProcessor False sampleMarker = []" by blast
  from t [of "[sampleOvernight, sampleMarker, staleOvernight]"]
  have "generateTextList utcRuntime sampleProcessor [sampleOvernight, sampleMarker, staleOvernight] flatOptions
          = textReport utcRuntime sampleProcessor [sampleOvernight] flatOptions"
    by (simp add: o sample_in_range r1 r2 r3 sort_single)
  then have g: "generateTextList utcRuntime sampleProcessor [sampleOvernight, sampleMarker, staleOvernight] flatOptions
       = lit ''All Events Summary'' @ [10] @ lit ''11/15/2025 - 11/15/2025'' @ [10] @ lit ''Total: 1 event'' @ [10]
         @ replicate 50 61 @ [10, 10]
         @ lit ''11/15/2025 | Rocky & Bella Overnight | Overnight (2 nights)''"
    by (simp only: sample_report)
  from t [of "[sampleOvernight]"]
  have "generateCSV utcRuntime sampleProcessor [sampleOvernight] allEventsCsv
          = csvHeader False @ csvRow utcRuntime sampleProcessor False sampleOvernight"
    by (simp add: o sample_in_range r1 sortEvents_single)
  then have v: "generateCSV utcRuntime sampleProcessor [sampleOvernight] allEventsCsv
       = lit ''Date,Time,Client/Pet,Service Type,Duration'' @ [10]
         @ lit ''11/15/2025,6:00 PM,Rocky & Bella Overnight,Overnight (2 nights),39h 0m'' @ [10]"
    by (simp add: sample_row csvHeader_def)
  show ?thesis using r1 r2 r3 m c g v by (simp add: sample_midnights)
qed

section \<open>Unknown sort fields and group keys\<close>

text \<open>
  Claim C6 says that an unknown sort field compares every two events as equal.  In the
  source the \<^verbatim>\<open>default\<close> label stands with the case \<^verbatim>\<open>'date'\<close>: the field \<open>bogus\<close> orders
  the two sample events by their start.
\<close>

theorem unknown_sort_field_counterexample:
  "compareEvents utcRuntime sampleProcessor sampleOvernight sampleMarker (lit ''bogus'') = Some (- 140400000)"
  by (simp add: compareEvents_def lit_def sampleOvernight_def sampleMarker_def num_sub_def getTime_def)

text \<open>
  Claim C6, amended.  Nothing is rejected: a group key that is none of the five known ones
  gives the label \<open>Unknown\<close>, and a sort field that is none of \<open>client\<close>, \<open>service\<close> and
  \<open>time\<close> compares by start time, as the field \<open>date\<close> does.
\<close>

theorem unknown_configuration:
  "(groupType \<notin> set (map lit [''client'', ''service'', ''date'', ''week'', ''month''])
      \<longrightarrow> getGroupKey rt ep ev groupType = lit ''Unknown'')
   \<and> (sortField \<notin> set (map lit [''client'', ''service'', ''time''])
      \<longrightarrow> compareEvents rt ep a b sortField = num_sub (getTime (start a)) (getTime (start b))
          \<and> compareEvents rt ep a b sortField = compareEvents rt ep a b (lit ''date''))"
  by (simp add: getGroupKey_def compareEvents_def lit_def)

theorem unknown_configuration_witness:
  "getGroupKey utcRuntime sampleProcessor sampleOvernight (lit ''bogus'') = lit ''Unknown''
   \<and> compareEvents utcRuntime sampleProcessor sampleOvernight sampleMarker (lit ''bogus'')
       = num_sub (getTime (start sampleOvernight)) (getTime (start sampleMarker))"
  using unknown_configuration [of "lit ''bogus''" utcRuntime sampleProcessor sampleOvernight "lit ''bogus''"  sampleOvernight sampleMarker]
  by (simp add: lit_def)


section \<open>Grouping conserves the events\<close>












section \<open>The multi-level sort\<close>

lemma consistentI:
  assumes "\<And>a b. sgn (c b a) = - sgn (c a b)" "\<And>a b d. c a b \<le> 0 \<Longrightarrow> c b d \<le> 0 \<Longrightarrow> c a d \<le> 0"
  shows "consistent c"
  using assms unfolding consistent_def by blast

lemma consistent_flip: "consistent c \<Longrightarrow> sgn (c b a) = - sgn (c a b)"
  unfolding consistent_def by blast

lemma consistent_trans: "consistent c \<Longrightarrow> c a b \<le> 0 \<Longrightarrow> c b d \<le> 0 \<Longrightarrow> c a d \<le> 0"
  unfolding consistent_def by blast

lemma consistent_neg_iff: "consistent c \<Longrightarrow> (c x y < 0) = (c y x > 0)"
  using consistent_flip [of c x y] by (auto simp: sgn_if split: if_splits)

lemma consistent_zero_iff: "consistent c \<Longrightarrow> (c x y = 0) = (c y x = 0)"
  using consistent_flip [of c x y] by (auto simp: sgn_if split: if_splits)

lemma consistent_ge_iff: "consistent c \<Longrightarrow> (c x y \<ge> 0) = (c y x \<le> 0)"
  using consistent_neg_iff [of c x y] consistent_neg_iff [of c y x] by force

lemma consistent_total: "consistent c \<Longrightarrow> c a b \<le> 0 \<or> c b a \<le> 0"
  using consistent_ge_iff [of c a b] by force

lemma consistent_less_le:
  assumes "consistent c" "c a b < 0" "c b d \<le> 0"
  shows "c a d < 0"
proof (rule ccontr)
  assume "\<not> c a d < 0"
  then have "c d a \<le> 0" using consistent_ge_iff [OF assms(1), of a d] by simp
  with assms(3) have "c b a \<le> 0" using consistent_trans [OF assms(1)] by blast
  moreover have "c b a > 0" using assms(2) consistent_neg_iff [OF assms(1), of a b] by simp
  ultimately show False by simp
qed

lemma consistent_le_less:
  assumes "consistent c" "c a b \<le> 0" "c b d < 0"
  shows "c a d < 0"
proof (rule ccontr)
  assume "\<not> c a d < 0"
  then have "c d a \<le> 0" using consistent_ge_iff [OF assms(1), of a d] by simp
  with assms(2) have "c d b \<le> 0" using consistent_trans [OF assms(1)] by blast
  moreover have "c d b > 0" using assms(3) consistent_neg_iff [OF assms(1), of b d] by simp
  ultimately show False by simp
qed

lemma consistent_uminus: "consistent c \<Longrightarrow> consistent (\<lambda>a b. - c a b)"
proof (rule consistentI)
  fix a b assume c: "consistent c"
  show "sgn (- c b a) = - sgn (- c a b)" using consistent_flip [OF c, of a b] by (simp add: sgn_minus)
next
  fix a b d assume c: "consistent c" and "- c a b \<le> 0" "- c b d \<le> 0"
  then have "c b a \<le> 0" "c d b \<le> 0"
    using consistent_ge_iff [OF c, of a b] consistent_ge_iff [OF c, of b d] by simp_all
  then have "c d a \<le> 0" using consistent_trans [OF c] by blast
  then show "- c a d \<le> 0"
    using consistent_ge_iff [OF c, of a d] by simp
qed

lemma consistent_lex:
  assumes c: "consistent c" and d: "consistent d"
  shows "consistent (\<lambda>a b. if c a b \<noteq> 0 then c a b else d a b)"
proof (rule consistentI)
  fix a b
  show "sgn (if c b a \<noteq> 0 then c b a else d b a) = - sgn (if c a b \<noteq> 0 then c a b else d a b)"
    using consistent_flip [OF c, of a b] consistent_flip [OF d, of a b] consistent_zero_iff [OF c, of a b]
    by simp
next
  fix x y z
  assume xy: "(if c x y \<noteq> 0 then c x y else d x y) \<le> 0" and yz: "(if c y z \<noteq> 0 then c y z else d y z) \<le> 0"
  from xy have xy': "c x y \<le> 0" by (auto split: if_splits)
  from yz have yz': "c y z \<le> 0" by (auto split: if_splits)
  show "(if c x z \<noteq> 0 then c x z else d x z) \<le> 0"
  proof (cases "c x y < 0 \<or> c y z < 0")
    case True
    then have "c x z < 0"
      using consistent_less_le [OF c, of x y z] consistent_le_less [OF c, of x y z] xy' yz' by blast
    then show ?thesis by simp
  next
    case False
    with xy' yz' have e: "c x y = 0" "c y z = 0" by simp_all
    with xy yz have dd: "d x y \<le> 0" "d y z \<le> 0" by simp_all
    have "c x z \<le> 0" using consistent_trans [OF c xy' yz'] .
    moreover have "c z x \<le> 0"
      using consistent_trans [OF c, of z y x] e consistent_zero_iff [OF c, of x y] consistent_zero_iff [OF c, of y z]
      by simp
    ultimately have "c x z = 0" using consistent_ge_iff [OF c, of x z] by simp
    then show ?thesis using consistent_trans [OF d dd] by simp
  qed
qed

lemma consistent_key:
  "consistent c \<Longrightarrow> consistent (\<lambda>a b. c (f a) (f b))"
  unfolding consistent_def by blast

lemma consistent_diff: "consistent (\<lambda>a b. (f a :: int) - f b)"
  by (rule consistentI) (auto simp: sgn_if)

lemma consistent_eventsOrder:
  assumes "consistent (localeCompare rt)"
  shows "consistent (\<lambda>a b. eventsOrder rt ep a b f)"
proof -
  have f1: "consistent (\<lambda>a b. localeCompare rt (toLowerCase rt (extractClientName (title a)))
                                             (toLowerCase rt (extractClientName (title b))))"
    using consistent_key [OF assms, of "\<lambda>a. toLowerCase rt (extractClientName (title a))"] .
  have f2: "consistent (\<lambda>a b. localeCompare rt (toLowerCase rt (formatServiceType rt ep a))
                                             (toLowerCase rt (formatServiceType rt ep b)))"
    using consistent_key [OF assms, of "\<lambda>a. toLowerCase rt (formatServiceType rt ep a)"] .
  have f3: "consistent (\<lambda>a b. (getHours rt (timeValue (start a)) * 60 + getMinutes rt (timeValue (start a)))
                             - (getHours rt (timeValue (start b)) * 60 + getMinutes rt (timeValue (start b))))"
    by (rule consistent_diff)
  have f4: "consistent (\<lambda>a b. timeValue (start a) - timeValue (start b))"
    by (rule consistent_diff)
  consider "f = lit ''client''" | "f \<noteq> lit ''client''" "f = lit ''service''"
    | "f \<noteq> lit ''client''" "f \<noteq> lit ''service''" "f = lit ''time''"
    | "f \<noteq> lit ''client''" "f \<noteq> lit ''service''" "f \<noteq> lit ''time''"
    by blast
  then show ?thesis
  proof cases
    case 1
    then show ?thesis using f1 by (simp add: eventsOrder_def)
  next
    case 2
    then show ?thesis using f2 by (simp add: eventsOrder_def)
  next
    case 3
    then show ?thesis using f3 by (simp add: eventsOrder_def)
  next
    case 4
    then show ?thesis using f4 by (simp add: eventsOrder_def)
  qed
qed

lemma levelsOrder_unfold:
  "levelsOrder rt ep (lv # lvs) =
     (\<lambda>a b. if (if sortOrder lv = lit ''desc'' then - eventsOrder rt ep a b (sortBy lv) else eventsOrder rt ep a b (sortBy lv)) \<noteq> 0
            then (if sortOrder lv = lit ''desc'' then - eventsOrder rt ep a b (sortBy lv) else eventsOrder rt ep a b (sortBy lv))
            else levelsOrder rt ep lvs a b)"
  by (intro ext) (simp add: Let_def)

lemma consistent_levelsOrder:
  assumes "consistent (localeCompare rt)"
  shows "consistent (levelsOrder rt ep levels)"
proof (induction levels)
  case Nil
  have "levelsOrder rt ep [] = (\<lambda>a b. timeValue (start a) - timeValue (start b))" by (intro ext) simp
  then show ?case using consistent_diff [of "\<lambda>a. timeValue (start a)"] by simp
next
  case (Cons lv lvs)
  let ?c = "\<lambda>a b. eventsOrder rt ep a b (sortBy lv)"
  have c: "consistent ?c" using consistent_eventsOrder [OF assms] .
  have "consistent (\<lambda>a b. if sortOrder lv = lit ''desc'' then - ?c a b else ?c a b)"
    using c consistent_uminus [OF c] by (cases "sortOrder lv = lit ''desc''") simp_all
  from consistent_lex [OF this Cons]
  show ?case unfolding levelsOrder_unfold .
qed

text \<open>On events with valid start dates the comparisons of the source are these integers.\<close>

lemma valid_start: "start a \<noteq> InvalidDate \<Longrightarrow> start a = Date (timeValue (start a))"
  by (cases "start a") (simp_all add: timeValue_def)

lemma compareEvents_valid:
  assumes "start a \<noteq> InvalidDate" "start b \<noteq> InvalidDate"
  shows "compareEvents rt ep a b f = Some (eventsOrder rt ep a b f)"
proof -
  obtain s t where "start a = Date s" "start b = Date t"
    using assms by (cases "start a"; cases "start b") auto
  then show ?thesis
    by (simp add: compareEvents_def eventsOrder_def timeValue_def dateField_def getTime_def num_add_def
          num_mul_def num_sub_def Let_def)
qed

lemma compareLevels_valid:
  assumes "start a \<noteq> InvalidDate" "start b \<noteq> InvalidDate"
  shows "compareLevels rt ep levels a b = Some (levelsOrder rt ep levels a b)"
proof (induction levels)
  case Nil
  obtain s t where "start a = Date s" "start b = Date t"
    using assms by (cases "start a"; cases "start b") auto
  then show ?case by (simp add: timeValue_def getTime_def num_sub_def)
next
  case (Cons lv lvs)
  show ?case
    by (simp add: compareEvents_valid [OF assms] Cons num_neg_def Let_def)
qed

lemma inLevelOrder_valid:
  assumes "start a \<noteq> InvalidDate" "start b \<noteq> InvalidDate"
  shows "inLevelOrder rt ep levels a b = (levelsOrder rt ep levels a b \<le> 0)"
proof (induction levels)
  case Nil
  obtain s t where "start a = Date s" "start b = Date t"
    using assms by (cases "start a"; cases "start b") auto
  then show ?case by (simp add: timeValue_def)
next
  case (Cons lv lvs)
  show ?case
    by (auto simp: compareEvents_valid [OF assms] Cons num_gt_def num_lt_def Let_def)
qed

text \<open>Insertion sort with an integer comparison.\<close>

lemma insertBy_cong:
  "(\<And>y. y \<in> set ys \<Longrightarrow> c x y = c' x y) \<Longrightarrow> insertBy c x ys = insertBy c' x ys"
  by (induction ys) simp_all

lemma set_foldr_insertBy: "set (foldr (insertBy c) xs []) = set xs"
  by (induction xs) (simp_all add: set_insertBy)

lemma jsSort_cong:
  assumes "\<And>x y. x \<in> set xs \<Longrightarrow> y \<in> set xs \<Longrightarrow> sortCompare cmp x y = c x y"
  shows "jsSort cmp xs = foldr (insertBy c) xs []"
  using assms
proof (induction xs)
  case Nil
  show ?case by (simp add: jsSort_def)
next
  case (Cons x xs)
  have ih: "jsSort cmp xs = foldr (insertBy c) xs []" using Cons by simp
  have "jsSort cmp (x # xs) = insertBy (sortCompare cmp) x (foldr (insertBy c) xs [])"
    using ih by (simp add: jsSort_def)
  also have "\<dots> = insertBy c x (foldr (insertBy c) xs [])"
    by (rule insertBy_cong) (simp add: set_foldr_insertBy Cons.prems)
  finally show ?case by simp
qed

lemma sorted_insertBy:
  assumes c: "consistent c" and s: "sorted_wrt (\<lambda>a b. c a b \<le> 0) ys"
  shows "sorted_wrt (\<lambda>a b. c a b \<le> 0) (insertBy c x ys)"
  using s
proof (induction ys)
  case Nil
  show ?case by simp
next
  case (Cons y ys)
  show ?case
  proof (cases "c x y \<le> 0")
    case True
    have "c x z \<le> 0" if "z \<in> set ys" for z
      using consistent_trans [OF c True, of z] Cons.prems that by simp
    with True Cons.prems show ?thesis by simp
  next
    case False
    then have "c y x \<le> 0" using consistent_total [OF c, of x y] by simp
    with False Cons show ?thesis by (simp add: set_insertBy)
  qed
qed

lemma sorted_foldr_insertBy: "consistent c \<Longrightarrow> sorted_wrt (\<lambda>a b. c a b \<le> 0) (foldr (insertBy c) xs [])"
  by (induction xs) (simp_all add: sorted_insertBy)

lemma foldr_insertBy_sorted_id: "sorted_wrt (\<lambda>a b. c a b \<le> 0) xs \<Longrightarrow> foldr (insertBy c) xs [] = xs"
proof (induction xs)
  case Nil
  show ?case by simp
next
  case (Cons x xs)
  then have "foldr (insertBy c) xs [] = xs" by simp
  then have "foldr (insertBy c) (x # xs) [] = insertBy c x xs" by simp
  also have "\<dots> = x # xs" using Cons.prems by (cases xs) simp_all
  finally show ?case .
qed

lemma count_insertBy: "count_list (insertBy c x ys) z = count_list (x # ys) z"
  by (induction ys) auto

lemma count_jsSort: "count_list (jsSort cmp xs) z = count_list xs z"
  unfolding jsSort_def by (induction xs) (simp_all add: count_insertBy)

text \<open>The sort is stable: elements that compare as equal keep the order of the input.\<close>

lemma filter_insertBy:
  assumes c: "consistent c" and s: "sorted_wrt (\<lambda>a b. c a b \<le> 0) ys"
  shows "filter (\<lambda>y. c z y = 0) (insertBy c x ys) = filter (\<lambda>y. c z y = 0) (x # ys)"
  using s
proof (induction ys)
  case Nil
  show ?case by simp
next
  case (Cons y ys)
  show ?case
  proof (cases "c x y \<le> 0")
    case True
    then show ?thesis by simp
  next
    case False
    have ih: "filter (\<lambda>y. c z y = 0) (insertBy c x ys) = filter (\<lambda>y. c z y = 0) (x # ys)"
      using Cons by simp
    have "\<not> (c z x = 0 \<and> c z y = 0)"
    proof
      assume e: "c z x = 0 \<and> c z y = 0"
      then have "c x z \<le> 0" using consistent_zero_iff [OF c, of z x] by simp
      with e have "c x y \<le> 0" using consistent_trans [OF c, of x z y] by simp
      with False show False by simp
    qed
    then show ?thesis using False ih by auto
  qed
qed

lemma stable_foldr_insertBy:
  "consistent c \<Longrightarrow> filter (\<lambda>y. c z y = 0) (foldr (insertBy c) xs []) = filter (\<lambda>y. c z y = 0) xs"
  by (induction xs) (simp_all add: filter_insertBy sorted_foldr_insertBy)

lemma compareLevels_ties:
  "(\<forall>lv \<in> set levels. compareEvents rt ep a b (sortBy lv) = Some 0) \<Longrightarrow>
     compareLevels rt ep levels a b = num_sub (getTime (start a)) (getTime (start b))"
  by (induction levels) (simp_all add: num_neg_def Let_def)

lemma compareLevels_first:
  "compareLevels rt ep (lv # lvs) a b =
     (if compareEvents rt ep a b (sortBy lv) = Some 0 then compareLevels rt ep lvs a b
      else if sortOrder lv = lit ''desc'' then num_neg (compareEvents rt ep a b (sortBy lv))
      else compareEvents rt ep a b (sortBy lv))"
  by (cases "compareEvents rt ep a b (sortBy lv)") (auto simp: num_neg_def Let_def)

lemma unitCompare_flip: "sgn (unitCompare y x) = - sgn (unitCompare x y)"
  by (induction x y rule: unitCompare.induct) auto

lemma unitCompare_trans: "unitCompare x y \<le> 0 \<Longrightarrow> unitCompare y z \<le> 0 \<Longrightarrow> unitCompare x z \<le> 0"
proof (induction x arbitrary: y z)
  case Nil
  show ?case by (cases z) simp_all
next
  case (Cons a x)
  from Cons.prems(1) obtain b y' where y: "y = b # y'" by (cases y) auto
  from Cons.prems(2) y obtain d z' where z: "z = d # z'" by (cases z) auto
  show ?case using Cons.prems Cons.IH [of y' z'] unfolding y z
    by (auto split: if_splits)
qed

lemma consistent_unitCompare: "consistent (localeCompare utcRuntime)"
proof -
  have "consistent unitCompare"
    by (rule consistentI) (rule unitCompare_flip, erule unitCompare_trans)
  then show ?thesis by (simp add: utcRuntime_def)
qed

lemma sample_clients:
  "toLowerCase utcRuntime (extractClientName (title milo30)) = lit ''milo''"
  "toLowerCase utcRuntime (extractClientName (title milo45)) = lit ''milo''"
  "toLowerCase utcRuntime (extractClientName (title zoe30)) = lit ''zoe''"
  "toLowerCase utcRuntime (extractClientName (title miloTwin)) = lit ''milo''"
  by (simp_all add: milo30_def milo45_def zoe30_def miloTwin_def ev ev_export cong: let_weak_cong)

lemma sample_minutes:
  "dateField (getHours utcRuntime) (start milo30) = Some 10" "dateField (getMinutes utcRuntime) (start milo30) = Some 0"
  "dateField (getHours utcRuntime) (start milo45) = Some 12" "dateField (getMinutes utcRuntime) (start milo45) = Some 0"
  "dateField (getHours utcRuntime) (start zoe30) = Some 11" "dateField (getMinutes utcRuntime) (start zoe30) = Some 0"
  "dateField (getHours utcRuntime) (start miloTwin) = Some 10" "dateField (getMinutes utcRuntime) (start miloTwin) = Some 0"
  by (simp_all add: milo30_def milo45_def zoe30_def miloTwin_def dateField_def utcRuntime_def utcGetHours_def
        utcGetMinutes_def)

lemma sample_client_compare:
  "compareEvents utcRuntime sampleProcessor zoe30 milo30 (lit ''client'') = Some 1"
  "compareEvents utcRuntime sampleProcessor milo45 zoe30 (lit ''client'') = Some (- 1)"
  "compareEvents utcRuntime sampleProcessor milo30 zoe30 (lit ''client'') = Some (- 1)"
  "compareEvents utcRuntime sampleProcessor zoe30 milo45 (lit ''client'') = Some 1"
  "compareEvents utcRuntime sampleProcessor milo45 milo30 (lit ''client'') = Some 0"
  "compareEvents utcRuntime sampleProcessor milo30 milo45 (lit ''client'') = Some 0"
  by (simp_all add: compareEvents_def sample_clients Let_def) (simp_all add: utcRuntime_def lit_def)

lemma sample_time_compare:
  "compareEvents utcRuntime sampleProcessor milo45 milo30 (lit ''time'') = Some 120"
  "compareEvents utcRuntime sampleProcessor milo30 milo45 (lit ''time'') = Some (- 120)"
  "compareEvents utcRuntime sampleProcessor milo30 miloTwin (lit ''time'') = Some 0"
  "compareEvents utcRuntime sampleProcessor miloTwin milo30 (lit ''time'') = Some 0"
  by (simp_all add: compareEvents_def sample_minutes num_add_def num_mul_def num_sub_def Let_def)
     (simp_all add: lit_def)

lemma sample_starts:
  "getTime (start milo30) = Some 1763200800000" "getTime (start milo45) = Some 1763208000000"
  "getTime (start miloTwin) = Some 1763200800000" "getTime (start staleOvernight) = None"
  by (simp_all add: milo30_def milo45_def miloTwin_def staleOvernight_def getTime_def)

lemma asc_desc: "lit ''asc'' \<noteq> lit ''desc''"
  by (simp add: lit_def)

lemma sample_levels:
  "compareLevels utcRuntime sampleProcessor
     [\<lparr>sortBy = lit ''client'', sortOrder = lit ''desc''\<rparr>, \<lparr>sortBy = lit ''time'', sortOrder = lit ''asc''\<rparr>]
     zoe30 milo30 = Some (- 1)"
  "compareLevels utcRuntime sampleProcessor
     [\<lparr>sortBy = lit ''client'', sortOrder = lit ''desc''\<rparr>, \<lparr>sortBy = lit ''time'', sortOrder = lit ''asc''\<rparr>]
     milo45 zoe30 = Some 1"
  "compareLevels utcRuntime sampleProcessor
     [\<lparr>sortBy = lit ''client'', sortOrder = lit ''desc''\<rparr>, \<lparr>sortBy = lit ''time'', sortOrder = lit ''asc''\<rparr>]
     milo45 milo30 = Some 120"
  by (simp_all add: sample_client_compare sample_time_compare num_neg_def asc_desc Let_def)

lemma sample_sorted:
  "sortEventsMultiLevel utcRuntime sampleProcessor [milo45, zoe30, milo30]
     [\<lparr>sortBy = lit ''client'', sortOrder = lit ''desc''\<rparr>, \<lparr>sortBy = lit ''time'', sortOrder = lit ''asc''\<rparr>]
     = [zoe30, milo30, milo45]"
  by (simp add: sortEventsMultiLevel_def jsSort_def sortCompare_def sample_levels del: compareLevels.simps)

lemma sample_ties:
  "compareLevels utcRuntime sampleProcessor [\<lparr>sortBy = lit ''time'', sortOrder = lit ''asc''\<rparr>] milo30 miloTwin = Some 0"
  "compareLevels utcRuntime sampleProcessor [\<lparr>sortBy = lit ''time'', sortOrder = lit ''asc''\<rparr>] miloTwin milo30 = Some 0"
  by (simp_all add: sample_time_compare sample_starts num_sub_def asc_desc Let_def)

lemma sample_nan:
  "compareLevels utcRuntime sampleProcessor [\<lparr>sortBy = lit ''date'', sortOrder = lit ''asc''\<rparr>] milo45 staleOvernight = None"
  "compareLevels utcRuntime sampleProcessor [\<lparr>sortBy = lit ''date'', sortOrder = lit ''asc''\<rparr>] staleOvernight milo30 = None"
  "compareLevels utcRuntime sampleProcessor [\<lparr>sortBy = lit ''date'', sortOrder = lit ''asc''\<rparr>] milo45 milo30 = Some 7200000"
  by (simp_all add: compareEvents_def sample_starts num_sub_def lit_def Let_def)

text \<open>
  Claim C4 ends by saying that the order delivered is a deterministic total order.  It is
  not.  The two records of the visit to Milo at 10:00 are different events that agree in
  every sort key and in their start, the comparison function gives zero for them either
  way round, and the sort delivers them in the order in which they came.  And for an
  event whose start cannot be read as a date the comparison function gives \<^verbatim>\<open>NaN\<close>, which
  the sort reads as zero: a list with such an event between a later and an earlier visit
  is left as it is, the later visit before the earlier one.
\<close>

theorem sort_total_order_counterexample:
  "miloTwin \<noteq> milo30
   \<and> compareLevels utcRuntime sampleProcessor [\<lparr>sortBy = lit ''time'', sortOrder = lit ''asc''\<rparr>] milo30 miloTwin = Some 0
   \<and> compareLevels utcRuntime sampleProcessor [\<lparr>sortBy = lit ''time'', sortOrder = lit ''asc''\<rparr>] miloTwin milo30 = Some 0
   \<and> sortEventsMultiLevel utcRuntime sampleProcessor [milo30, miloTwin] [\<lparr>sortBy = lit ''time'', sortOrder = lit ''asc''\<rparr>]
       = [milo30, miloTwin]
   \<and> sortEventsMultiLevel utcRuntime sampleProcessor [miloTwin, milo30] [\<lparr>sortBy = lit ''time'', sortOrder = lit ''asc''\<rparr>]
       = [miloTwin, milo30]
   \<and> compareLevels utcRuntime sampleProcessor [\<lparr>sortBy = lit ''date'', sortOrder = lit ''asc''\<rparr>] milo45 staleOvernight = None
   \<and> compareLevels utcRuntime sampleProcessor [\<lparr>sortBy = lit ''date'', sortOrder = lit ''asc''\<rparr>] staleOvernight milo30 = None
   \<and> compareLevels utcRuntime sampleProcessor [\<lparr>sortBy = lit ''date'', sortOrder = lit ''asc''\<rparr>] milo45 milo30
       = Some 7200000
   \<and> sortEventsMultiLevel utcRuntime sampleProcessor [milo45, staleOvernight, milo30]
       [\<lparr>sortBy = lit ''date'', sortOrder = lit ''asc''\<rparr>] = [milo45, staleOvernight, milo30]"
proof -
  have d: "miloTwin \<noteq> milo30" by (simp add: miloTwin_def milo30_def)
  have 1: "sortEventsMultiLevel utcRuntime sampleProcessor [milo30, miloTwin] [\<lparr>sortBy = lit ''time'', sortOrder = lit ''asc''\<rparr>]
       = [milo30, miloTwin]"
    by (simp add: sortEventsMultiLevel_def jsSort_def sortCompare_def sample_ties del: compareLevels.simps)
  have 2: "sortEventsMultiLevel utcRuntime sampleProcessor [miloTwin, milo30] [\<lparr>sortBy = lit ''time'', sortOrder = lit ''asc''\<rparr>]
       = [miloTwin, milo30]"
    by (simp add: sortEventsMultiLevel_def jsSort_def sortCompare_def sample_ties del: compareLevels.simps)
  have 3: "sortEventsMultiLevel utcRuntime sampleProcessor [milo45, staleOvernight, milo30]
       [\<lparr>sortBy = lit ''date'', sortOrder = lit ''asc''\<rparr>] = [milo45, staleOvernight, milo30]"
    by (simp add: sortEventsMultiLevel_def jsSort_def sortCompare_def sample_nan del: compareLevels.simps)
  show ?thesis using d 1 2 3 sample_ties sample_nan by blast
qed

text \<open>
  Claim C4, amended.  Let the collation of the runtime be a consistent comparison, the
  sort specification be non-empty and every event of the list have a valid start date.
  Then the output of \<open>sortEventsMultiLevel\<close> holds each event as often as the input; sorting
  it again with the same specification returns it unchanged; every element of the output
  stands in the order of the specification before every later one, that is, on the first
  level on which the two differ the earlier one comes first in the direction of that
  level, and when no level tells them apart it starts no later.  The comparison function
  takes the first level whose comparison is not zero, negated when the level is
  descending, and the difference of the start times when every level gives zero.  On
  events with valid start dates it agrees with the order of the specification, which
  relates any two such events one way or the other and is transitive: a total preorder,
  in which different events can be equal.  Events that compare as equal are delivered in
  the order of the input.
\<close>

theorem multi_level_sort_order:
  assumes "consistent (localeCompare rt)" and "levels \<noteq> []" and "\<forall>e \<in> set evs. start e \<noteq> InvalidDate"
  shows "(\<forall>z. count_list (sortEventsMultiLevel rt ep evs levels) z = count_list evs z)
    \<and> sortEventsMultiLevel rt ep (sortEventsMultiLevel rt ep evs levels) levels = sortEventsMultiLevel rt ep evs levels
    \<and> (\<forall>i j. i < j \<and> j < length (sortEventsMultiLevel rt ep evs levels) \<longrightarrow>
          inLevelOrder rt ep levels (sortEventsMultiLevel rt ep evs levels ! i)
                                    (sortEventsMultiLevel rt ep evs levels ! j))
    \<and> (\<forall>a b. (\<forall>lv \<in> set levels. compareEvents rt ep a b (sortBy lv) = Some 0) \<longrightarrow>
          compareLevels rt ep levels a b = num_sub (getTime (start a)) (getTime (start b)))
    \<and> (\<forall>a b lv lvs. compareLevels rt ep (lv # lvs) a b =
          (if compareEvents rt ep a b (sortBy lv) = Some 0 then compareLevels rt ep lvs a b
           else if sortOrder lv = lit ''desc'' then num_neg (compareEvents rt ep a b (sortBy lv))
           else compareEvents rt ep a b (sortBy lv)))
    \<and> (\<forall>a b. start a \<noteq> InvalidDate \<and> start b \<noteq> InvalidDate \<longrightarrow>
          (inLevelOrder rt ep levels a b = (\<exists>v. compareLevels rt ep levels a b = Some v \<and> v \<le> 0))
          \<and> (inLevelOrder rt ep levels a b \<or> inLevelOrder rt ep levels b a))
    \<and> (\<forall>a b d. start a \<noteq> InvalidDate \<and> start b \<noteq> InvalidDate \<and> start d \<noteq> InvalidDate
          \<and> inLevelOrder rt ep levels a b \<and> inLevelOrder rt ep levels b d \<longrightarrow> inLevelOrder rt ep levels a d)
    \<and> (\<forall>z \<in> set evs. filter (\<lambda>y. compareLevels rt ep levels z y = Some 0) (sortEventsMultiLevel rt ep evs levels)
                       = filter (\<lambda>y. compareLevels rt ep levels z y = Some 0) evs)"
proof -
  let ?cmp = "compareLevels rt ep levels"
  let ?c = "levelsOrder rt ep levels"
  let ?out = "jsSort ?cmp evs"
  have out: "sortEventsMultiLevel rt ep xs levels = jsSort ?cmp xs" for xs
    using assms(2) by (simp add: sortEventsMultiLevel_def)
  have c: "consistent ?c" using assms(1) by (rule consistent_levelsOrder)
  have ins: "jsSort ?cmp xs = foldr (insertBy ?c) xs []" if "\<forall>e \<in> set xs. start e \<noteq> InvalidDate" for xs
    by (rule jsSort_cong) (simp add: sortCompare_def compareLevels_valid that)
  have valid: "\<forall>e \<in> set ?out. start e \<noteq> InvalidDate" using assms(3) by (simp add: set_jsSort)
  have s: "sorted_wrt (\<lambda>a b. ?c a b \<le> 0) ?out"
    unfolding ins [OF assms(3)] using c by (rule sorted_foldr_insertBy)
  have 1: "\<forall>z. count_list ?out z = count_list evs z" by (simp add: count_jsSort)
  have 2: "jsSort ?cmp ?out = ?out"
    unfolding ins [OF valid] using s by (rule foldr_insertBy_sorted_id)
  have 3: "\<forall>i j. i < j \<and> j < length ?out \<longrightarrow> inLevelOrder rt ep levels (?out ! i) (?out ! j)"
  proof (intro allI impI)
    fix i j assume ij: "i < j \<and> j < length ?out"
    then have "?c (?out ! i) (?out ! j) \<le> 0" using s by (simp add: sorted_wrt_iff_nth_less)
    moreover have "start (?out ! i) \<noteq> InvalidDate" "start (?out ! j) \<noteq> InvalidDate"
      using valid ij by simp_all
    ultimately show "inLevelOrder rt ep levels (?out ! i) (?out ! j)"
      by (simp add: inLevelOrder_valid)
  qed
  have 4: "\<forall>a b. (\<forall>lv \<in> set levels. compareEvents rt ep a b (sortBy lv) = Some 0) \<longrightarrow>
          ?cmp a b = num_sub (getTime (start a)) (getTime (start b))"
    using compareLevels_ties by blast
  have 5: "\<forall>a b lv lvs. compareLevels rt ep (lv # lvs) a b =
          (if compareEvents rt ep a b (sortBy lv) = Some 0 then compareLevels rt ep lvs a b
           else if sortOrder lv = lit ''desc'' then num_neg (compareEvents rt ep a b (sortBy lv))
           else compareEvents rt ep a b (sortBy lv))"
    using compareLevels_first by blast
  have 6: "\<forall>a b. start a \<noteq> InvalidDate \<and> start b \<noteq> InvalidDate \<longrightarrow>
          (inLevelOrder rt ep levels a b = (\<exists>v. ?cmp a b = Some v \<and> v \<le> 0))
          \<and> (inLevelOrder rt ep levels a b \<or> inLevelOrder rt ep levels b a)"
    using consistent_total [OF c] by (simp add: inLevelOrder_valid compareLevels_valid)
  have 7: "\<forall>a b d. start a \<noteq> InvalidDate \<and> start b \<noteq> InvalidDate \<and> start d \<noteq> InvalidDate
          \<and> inLevelOrder rt ep levels a b \<and> inLevelOrder rt ep levels b d \<longrightarrow> inLevelOrder rt ep levels a d"
  proof (intro allI impI)
    fix a b d
    assume h: "start a \<noteq> InvalidDate \<and> start b \<noteq> InvalidDate \<and> start d \<noteq> InvalidDate
          \<and> inLevelOrder rt ep levels a b \<and> inLevelOrder rt ep levels b d"
    then have va: "start a \<noteq> InvalidDate" and vb: "start b \<noteq> InvalidDate" and vd: "start d \<noteq> InvalidDate"
      and ab: "inLevelOrder rt ep levels a b" and bd: "inLevelOrder rt ep levels b d"
      by blast+
    have "?c a b \<le> 0" using ab by (simp add: inLevelOrder_valid [OF va vb])
    moreover have "?c b d \<le> 0" using bd by (simp add: inLevelOrder_valid [OF vb vd])
    ultimately have "?c a d \<le> 0" by (rule consistent_trans [OF c])
    then show "inLevelOrder rt ep levels a d" by (simp add: inLevelOrder_valid [OF va vd])
  qed
  have 8: "\<forall>z \<in> set evs. filter (\<lambda>y. ?cmp z y = Some 0) ?out = filter (\<lambda>y. ?cmp z y = Some 0) evs"
  proof
    fix z assume z: "z \<in> set evs"
    then have vz: "start z \<noteq> InvalidDate" using assms(3) by simp
    have "filter (\<lambda>y. ?cmp z y = Some 0) ?out = filter (\<lambda>y. ?c z y = 0) ?out"
      by (rule filter_cong) (use valid vz in \<open>simp_all add: compareLevels_valid\<close>)
    also have "\<dots> = filter (\<lambda>y. ?c z y = 0) evs"
      unfolding ins [OF assms(3)] using c by (rule stable_foldr_insertBy)
    also have "\<dots> = filter (\<lambda>y. ?cmp z y = Some 0) evs"
      by (rule filter_cong) (use assms(3) vz in \<open>simp_all add: compareLevels_valid\<close>)
    finally show "filter (\<lambda>y. ?cmp z y = Some 0) ?out = filter (\<lambda>y. ?cmp z y = Some 0) evs" .
  qed
  show ?thesis
    unfolding out by (intro conjI) (fact 1, fact 2, fact 3, fact 4, fact 5, fact 6, fact 7, fact 8)
qed

text \<open>
  Three visits, sorted by client descending and then by time: Zoe comes first, then the
  two visits to Milo in the order of their times.
\<close>

theorem multi_level_sort_order_witness:
  "consistent (localeCompare utcRuntime)
   \<and> [\<lparr>sortBy = lit ''client'', sortOrder = lit ''desc''\<rparr>, \<lparr>sortBy = lit ''time'', sortOrder = lit ''asc''\<rparr>] \<noteq> []
   \<and> start milo45 \<noteq> InvalidDate \<and> start zoe30 \<noteq> InvalidDate \<and> start milo30 \<noteq> InvalidDate
   \<and> sortEventsMultiLevel utcRuntime sampleProcessor [milo45, zoe30, milo30]
       [\<lparr>sortBy = lit ''client'', sortOrder = lit ''desc''\<rparr>, \<lparr>sortBy = lit ''time'', sortOrder = lit ''asc''\<rparr>]
       = [zoe30, milo30, milo45]
   \<and> sortEventsMultiLevel utcRuntime sampleProcessor [zoe30, milo30, milo45]
       [\<lparr>sortBy = lit ''client'', sortOrder = lit ''desc''\<rparr>, \<lparr>sortBy = lit ''time'', sortOrder = lit ''asc''\<rparr>]
       = [zoe30, milo30, milo45]
   \<and> inLevelOrder utcRuntime sampleProcessor
       [\<lparr>sortBy = lit ''client'', sortOrder = lit ''desc''\<rparr>, \<lparr>sortBy = lit ''time'', sortOrder = lit ''asc''\<rparr>]
       zoe30 milo30
   \<and> inLevelOrder utcRuntime sampleProcessor
       [\<lparr>sortBy = lit ''client'', sortOrder = lit ''desc''\<rparr>, \<lparr>sortBy = lit ''time'', sortOrder = lit ''asc''\<rparr>]
       milo30 milo45
   \<and> \<not> inLevelOrder utcRuntime sampleProcessor
       [\<lparr>sortBy = lit ''client'', sortOrder = lit ''desc''\<rparr>, \<lparr>sortBy = lit ''time'', sortOrder = lit ''asc''\<rparr>]
       milo45 zoe30"
proof -
  let ?lv = "[\<lparr>sortBy = lit ''client'', sortOrder = lit ''desc''\<rparr>, \<lparr>sortBy = lit ''time'', sortOrder = lit ''asc''\<rparr>]"
  have ne: "?lv \<noteq> []" by simp
  have v: "\<forall>e \<in> set [milo45, zoe30, milo30]. start e \<noteq> InvalidDate"
    by (simp add: milo45_def zoe30_def milo30_def)
  note t = multi_level_sort_order [OF consistent_unitCompare ne v, of sampleProcessor]
  note t2 = t [THEN conjunct2, THEN conjunct1]
  note t3 = t [THEN conjunct2, THEN conjunct2, THEN conjunct1]
  have i: "sortEventsMultiLevel utcRuntime sampleProcessor [zoe30, milo30, milo45] ?lv = [zoe30, milo30, milo45]"
    using t2 unfolding sample_sorted .
  have o: "\<forall>i j. i < j \<and> j < length [zoe30, milo30, milo45] \<longrightarrow>
      inLevelOrder utcRuntime sampleProcessor ?lv ([zoe30, milo30, milo45] ! i) ([zoe30, milo30, milo45] ! j)"
    using t3 unfolding sample_sorted .
  from o have "0 < Suc 0 \<and> Suc 0 < length [zoe30, milo30, milo45] \<longrightarrow>
      inLevelOrder utcRuntime sampleProcessor ?lv ([zoe30, milo30, milo45] ! 0) ([zoe30, milo30, milo45] ! Suc 0)"
    by blast
  then have a: "inLevelOrder utcRuntime sampleProcessor ?lv zoe30 milo30"
    by (simp del: inLevelOrder.simps)
  from o have "Suc 0 < Suc (Suc 0) \<and> Suc (Suc 0) < length [zoe30, milo30, milo45] \<longrightarrow>
      inLevelOrder utcRuntime sampleProcessor ?lv ([zoe30, milo30, milo45] ! Suc 0) ([zoe30, milo30, milo45] ! Suc (Suc 0))"
    by blast
  then have b: "inLevelOrder utcRuntime sampleProcessor ?lv milo30 milo45"
    by (simp del: inLevelOrder.simps)
  have n: "\<not> inLevelOrder utcRuntime sampleProcessor ?lv milo45 zoe30"
    by (simp add: sample_client_compare num_gt_def Let_def)
  have v': "start milo45 \<noteq> InvalidDate" "start zoe30 \<noteq> InvalidDate" "start milo30 \<noteq> InvalidDate"
    using v by simp_all
  show ?thesis
    by (intro conjI) (fact consistent_unitCompare, fact ne, fact v', fact v', fact v', fact sample_sorted, fact i,
        fact a, fact b, fact n)
qed

section \<open>What a match of the matcher looks like\<close>

lemma rx_search_SomeD:
  "rx_search ic r l s = Some (b, e) \<Longrightarrow>
     \<exists>pre post. s = pre @ post \<and> b = (rev pre @ l, post) \<and> rmatch ic r b \<noteq> [] \<and> e = hd (rmatch ic r b)"
proof (induction s arbitrary: l)
  case Nil
  then show ?case by (auto split: list.splits)
next
  case (Cons x s)
  show ?case
  proof (cases "rmatch ic r (l, x # s)")
    case Nil
    with Cons.prems have "rx_search ic r (x # l) s = Some (b, e)" by simp
    from Cons.IH [OF this] obtain pre post where
      "s = pre @ post" "b = (rev pre @ x # l, post)" "rmatch ic r b \<noteq> []" "e = hd (rmatch ic r b)" by blast
    then have "x # s = (x # pre) @ post \<and> b = (rev (x # pre) @ l, post) \<and> rmatch ic r b \<noteq> [] \<and> e = hd (rmatch ic r b)"
      by simp
    then show ?thesis by blast
  next
    case (Cons e' es)
    with Cons.prems have "b = (l, x # s)" "e = e'" by simp_all
    with Cons have "x # s = [] @ (x # s) \<and> b = (rev [] @ l, x # s) \<and> rmatch ic r b \<noteq> [] \<and> e = hd (rmatch ic r b)"
      by simp
    then show ?thesis by blast
  qed
qed

lemma str_match_elem:
  "q \<in> set (str_match ic cs (l, s)) \<Longrightarrow>
     \<exists>t. s = t @ snd q \<and> fst q = rev t @ l \<and> map (canon ic) t = map (canon ic) cs"
proof (induction cs arbitrary: l s)
  case Nil
  then show ?case by simp
next
  case (Cons c cs)
  show ?case
  proof (cases s)
    case Nil
    with Cons.prems show ?thesis by simp
  next
    case (Cons x s')
    with Cons.prems have cx: "canon ic c = canon ic x" and q: "q \<in> set (str_match ic cs (x # l, s'))"
      by (auto split: if_splits)
    from Cons.IH [OF q] obtain t where "s' = t @ snd q" "fst q = rev t @ x # l" "map (canon ic) t = map (canon ic) cs"
      by blast
    then have "s = (x # t) @ snd q \<and> fst q = rev (x # t) @ l \<and> map (canon ic) (x # t) = map (canon ic) (c # cs)"
      using Cons cx by simp
    then show ?thesis by blast
  qed
qed

lemma rmatch_Seq_elem: "e \<in> set (rmatch ic (Seq a b) p) \<longleftrightarrow> (\<exists>q \<in> set (rmatch ic a p). e \<in> set (rmatch ic b q))"
  by auto

lemma rmatch_WordB_elem: "e \<in> set (rmatch ic WordB p) \<longleftrightarrow> e = p \<and> at_boundary p"
  by auto

lemma rmatch_Eol_elem: "e \<in> set (rmatch ic Eol p) \<longleftrightarrow> e = p \<and> snd p = []"
  by auto

lemma rmatch_Bol_elem: "e \<in> set (rmatch ic Bol p) \<longleftrightarrow> e = p \<and> fst p = []"
  by auto

lemma words_elem: "e \<in> set (rmatch ic (words ws) p) \<longleftrightarrow> (\<exists>w \<in> set ws. e \<in> set (str_match ic (lit w) p))"
  by (induction ws rule: words.induct) (auto split: list.splits)


lemma star_match_hd:
  "star_match ic c l s \<noteq> [] \<and>
   hd (star_match ic c l s) = (rev (takeWhile (cc_match ic c) s) @ l, dropWhile (cc_match ic c) s)"
proof (induction s arbitrary: l)
  case Nil
  show ?case by simp
next
  case (Cons x s)
  show ?case using Cons [of "x # l"] by simp
qed

section \<open>The service type\<close>

lemma canon_digit: "48 \<le> c \<Longrightarrow> c \<le> 57 \<Longrightarrow> canon ic x = canon ic c \<Longrightarrow> x = c"
  by (auto simp: canon_def split: if_splits)

lemma digits2_canon:
  assumes "map (canon ic) t = map (canon ic) [a, b]" "48 \<le> a" "a \<le> 57" "48 \<le> b" "b \<le> 57"
  shows "t = [a, b]"
proof -
  from assms(1) obtain x y where t: "t = [x, y]" by (cases t; cases "tl t") auto
  with assms show ?thesis using canon_digit by auto
qed

lemma duration_words_elem:
  assumes "q \<in> set (rmatch ic (words [''15'', ''20'', ''30'', ''45'', ''60'']) (l, s))"
  shows "\<exists>tok \<in> set (map lit [''15'', ''20'', ''30'', ''45'', ''60'']). s = tok @ snd q"
proof -
  from assms obtain w where w: "w \<in> set [''15'', ''20'', ''30'', ''45'', ''60'']"
      and m: "q \<in> set (str_match ic (lit w) (l, s))"
    unfolding words_elem by blast
  from str_match_elem [OF m] obtain t where t: "s = t @ snd q" "map (canon ic) t = map (canon ic) (lit w)"
    by blast
  have "t = lit w"
  proof -
    from w obtain a b where ab: "lit w = [a, b]" "48 \<le> a" "a \<le> 57" "48 \<le> b" "b \<le> 57"
      by (auto simp: lit_def)
    from digits2_canon [OF t(2) [unfolded ab(1)] ab(2-5)] ab(1) show ?thesis by simp
  qed
  with w t(1) show ?thesis by auto
qed

lemma duration_token_values:
  assumes "rx_exec ic durationToken s = Some tok"
  shows "tok \<in> set (map lit [''15'', ''20'', ''30'', ''45'', ''60''])"
proof -
  from assms obtain b e where be: "rx_search ic durationToken [] s = Some (b, e)"
      and tok: "tok = take (length (snd b) - length (snd e)) (snd b)"
    by (auto simp: rx_exec_def split: option.splits)
  from rx_search_SomeD [OF be] have ne: "rmatch ic durationToken b \<noteq> []" and e: "e = hd (rmatch ic durationToken b)"
    by auto
  have "e \<in> set (rmatch ic durationToken b)" unfolding e by (rule hd_in_set [OF ne])
  then have "e \<in> set (rmatch ic (Seq WordB (Seq (words [''15'', ''20'', ''30'', ''45'', ''60'']) WordB)) b)"
    by (simp only: durationToken_def seqs.simps)
  then obtain q q' where "q \<in> set (rmatch ic WordB b)"
      "q' \<in> set (rmatch ic (words [''15'', ''20'', ''30'', ''45'', ''60'']) q)" "e \<in> set (rmatch ic WordB q')"
    unfolding rmatch_Seq_elem by blast
  then have "e \<in> set (rmatch ic (words [''15'', ''20'', ''30'', ''45'', ''60'']) b)"
    unfolding rmatch_WordB_elem by blast
  then have "e \<in> set (rmatch ic (words [''15'', ''20'', ''30'', ''45'', ''60'']) (fst b, snd b))"
    by (simp only: prod.collapse)
  from duration_words_elem [OF this] obtain w where
    w: "w \<in> set (map lit [''15'', ''20'', ''30'', ''45'', ''60''])" "snd b = w @ snd e" by blast
  then have "tok = w" using tok by simp
  with w show ?thesis by simp
qed

lemma formatServiceType_cascade:
  "formatServiceType rt ep ev =
     (if ep_isOvernightEvent ep ev
      then lit ''Overnight (''
           @ (let n = calculateOvernightNights rt ep ev
              in if n = Some 1 then lit ''1 night'' else numString n @ lit '' nights'')
           @ lit '')''
      else if str_includes (toLowerCase rt (titleOrEmpty ev)) (lit ''nail trim'') then lit ''Nail Trim''
      else (case rx_exec True durationToken (titleOrEmpty ev) of
              Some tok \<Rightarrow> tok @ lit ''-min''
            | None \<Rightarrow> if ep_meetAndGreet ep (titleOrEmpty ev) then lit ''Meet & Greet''
                      else if etype ev = Some (lit ''walk'') then lit ''Dog Walk'' else lit ''Visit''))"
  by (cases "calculateOvernightNights rt ep ev") (simp_all add: formatServiceType_def num_eq_def Let_def)

lemma overnight_nights_value:
  assumes "ep_isOvernightEvent ep ev" "midnight rt (start ev) = Date s" "midnight rt (endTime ev) = Date e"
  shows "calculateOvernightNights rt ep ev = Some (max 1 (ceil_div (e - s) 86400000))"
  using assms by (simp add: calculateOvernightNights_def num_sub_def getTime_def Let_def)

lemma whole_days_nights:
  assumes "ep_isOvernightEvent ep ev" "midnight rt (start ev) = Date s" "midnight rt (endTime ev) = Date (s + k * 86400000)"
  shows "calculateOvernightNights rt ep ev = Some (max 1 k)"
  using overnight_nights_value [OF assms] by (simp add: ceil_div_def)

text \<open>The equations that evaluate the runtime with daylight saving time.\<close>

lemmas ev_eastern = easternRuntime_def easternGetFullYear_def easternGetMonth_def easternGetDate_def
  easternGetDay_def easternGetHours_def easternGetMinutes_def easternNewDate_def easternSetDateMidnight_def
  easternUTC_def easternLocal_def easternOffset_def

lemma fall_back_days:
  "getFullYear easternRuntime 1762124400000 = 2025"
  "getMonth easternRuntime 1762124400000 = 10"
  "getDate easternRuntime 1762124400000 = 2"
  "getFullYear easternRuntime 1762178400000 = 2025"
  "getMonth easternRuntime 1762178400000 = 10"
  "getDate easternRuntime 1762178400000 = 3"
  by (simp_all add: ev_eastern utcGetFullYear_def utcGetMonth_def utcGetDate_def civil_def Let_def
        cong: let_weak_cong)

lemma fall_back_fields:
  "dateField (getFullYear easternRuntime) (start fallBackNight) = Some 2025"
  "dateField (getMonth easternRuntime) (start fallBackNight) = Some 10"
  "dateField (getDate easternRuntime) (start fallBackNight) = Some 2"
  "dateField (getFullYear easternRuntime) (endTime fallBackNight) = Some 2025"
  "dateField (getMonth easternRuntime) (endTime fallBackNight) = Some 10"
  "dateField (getDate easternRuntime) (endTime fallBackNight) = Some 3"
  by (simp_all add: fallBackNight_def dateField_def fall_back_days)

lemma fall_back_midnights:
  "midnight easternRuntime (start fallBackNight) = Date 1762056000000"
  "midnight easternRuntime (endTime fallBackNight) = Date 1762146000000"
  by (simp_all add: midnight_def fallBackNight_def fall_back_days)
     (simp_all add: ev_eastern utcMidnight_def daysFromCivil_def timeClip_def Let_def cong: let_weak_cong)

lemma fall_back_overnight: "ep_isOvernightEvent sampleProcessor fallBackNight"
  by (simp add: sampleProcessor_def typeIsOvernight_def fallBackNight_def)

text \<open>
  Claim C7 gives the number of nights of an overnight event as the difference in calendar
  days between its start and its end, at least one.  The cascade is as the claim says, as
  \<open>formatServiceType_cascade\<close> and \<open>duration_token_values\<close> show, and the count is that
  difference whenever the two midnights are whole days apart (\<open>whole_days_nights\<close>).  But
  the source rounds the quotient of the two midnights up, and the local day on which
  daylight saving time ends has 25 hours: a stay from 2 November to 3 November 2025 in New
  York, one calendar day, is labelled with two nights.
\<close>

theorem overnight_nights_fall_back:
  "ep_isOvernightEvent sampleProcessor fallBackNight
   \<and> dateField (getDate easternRuntime) (start fallBackNight) = Some 2
   \<and> dateField (getDate easternRuntime) (endTime fallBackNight) = Some 3
   \<and> dateField (getMonth easternRuntime) (start fallBackNight)
       = dateField (getMonth easternRuntime) (endTime fallBackNight)
   \<and> dateField (getFullYear easternRuntime) (start fallBackNight)
       = dateField (getFullYear easternRuntime) (endTime fallBackNight)
   \<and> calculateOvernightNights easternRuntime sampleProcessor fallBackNight = Some 2
   \<and> formatServiceType easternRuntime sampleProcessor fallBackNight = lit ''Overnight (2 nights)''"
proof -
  have n: "calculateOvernightNights easternRuntime sampleProcessor fallBackNight = Some 2"
    using overnight_nights_value [OF fall_back_overnight fall_back_midnights] by (simp add: ceil_div_def)
  have "formatServiceType easternRuntime sampleProcessor fallBackNight = lit ''Overnight ('' @ (String 2 @ lit '' nights'') @ lit '')''"
    by (simp add: formatServiceType_def fall_back_overnight n num_eq_def numString_def Let_def)
  also have "\<dots> = lit ''Overnight (2 nights)''"
    by (simp add: String_def digits.simps lit_def)
  finally show ?thesis using n fall_back_overnight fall_back_fields by simp
qed


section \<open>CSV escaping\<close>

lemma is_prefix_single: "is_prefix [c] s = (s \<noteq> [] \<and> hd s = c)"
  by (cases s) auto

lemma str_includes_single: "str_includes v [c] = (c \<in> set v)"
  by (induction v) (auto simp: is_prefix_single)

lemma replace_quotes_from: "rx_replace_from False (Str [34]) [34, 34] l 0 s = doubleQuotes s"
proof (induction s arbitrary: l)
  case Nil
  show ?case by (simp add: doubleQuotes_def)
next
  case (Cons x s)
  show ?case using Cons [of "x # l"] by (auto simp: doubleQuotes_def canon_def)
qed

lemma replace_quotes: "rx_replace_all False (Str [34]) [34, 34] v = doubleQuotes v"
  by (simp add: rx_replace_all_def replace_quotes_from)

lemma escapeCSV_eq:
  "escapeCSV v = (if 44 \<in> set v \<or> 34 \<in> set v \<or> 10 \<in> set v then [34] @ doubleQuotes v @ [34] else v)"
proof -
  have "lit '','' = [44]" by (simp add: lit_def)
  then show ?thesis
    by (auto simp: escapeCSV_def str_includes_single replace_quotes)
qed

lemma quoted_roundtrip:
  "rest = [] \<or> hd rest \<noteq> 34 \<Longrightarrow> quotedField (doubleQuotes v @ [34] @ rest) = Some (v, rest)"
proof (induction v)
  case Nil
  then show ?case by (cases rest) (auto simp: doubleQuotes_def)
next
  case (Cons x v)
  then have "quotedField (doubleQuotes v @ [34] @ rest) = Some (v, rest)" by simp
  then show ?case by (simp add: doubleQuotes_def)
qed

lemma field_roundtrip:
  assumes "rest = [] \<or> fieldEnd (hd rest)" "44 \<in> set v \<or> 34 \<in> set v \<or> 10 \<in> set v \<or> 13 \<notin> set v"
  shows "parseField (escapeCSV v @ rest) = Some (v, rest)"
proof (cases "44 \<in> set v \<or> 34 \<in> set v \<or> 10 \<in> set v")
  case True
  from assms(1) have "rest = [] \<or> hd rest \<noteq> 34" by (auto simp: fieldEnd_def)
  from quoted_roundtrip [OF this, of v] True show ?thesis
    by (simp add: escapeCSV_eq parseField_def)
next
  case False
  with assms(2) have plain: "\<forall>c \<in> set v. \<not> fieldEnd c" by (auto simp: fieldEnd_def)
  have tw: "takeWhile (\<lambda>c. \<not> fieldEnd c) (v @ rest) = v" "dropWhile (\<lambda>c. \<not> fieldEnd c) (v @ rest) = rest"
    using plain assms(1) by (cases rest; simp add: takeWhile_append2 dropWhile_append2)+
  show ?thesis
  proof (cases "v @ rest")
    case Nil
    then show ?thesis using False by (simp add: escapeCSV_eq parseField_def)
  next
    case (Cons x s')
    have "x \<noteq> 34"
    proof (cases v)
      case Nil
      with Cons assms(1) show ?thesis by (auto simp: fieldEnd_def)
    next
      case (Cons y v')
      with \<open>v @ rest = x # s'\<close> False show ?thesis by auto
    qed
    then show ?thesis using False tw Cons by (simp add: escapeCSV_eq parseField_def)
  qed
qed


lemma digits_set: "c \<in> set (digits n) \<Longrightarrow> 48 \<le> c \<and> c \<le> 57"
proof (induction n rule: digits.induct)
  case (1 n)
  show ?case
  proof (cases "n < 10")
    case True
    with "1.prems" show ?thesis by (simp add: digits.simps [of n])
  next
    case False
    with "1.prems" have "c \<in> set (digits (n div 10)) \<or> c = 48 + n mod 10"
      by (auto simp: digits.simps [of n])
    moreover have "n mod 10 < 10" by simp
    ultimately show ?thesis using "1.IH" [OF False] by auto
  qed
qed

lemma String_set: "c \<in> set (String n) \<Longrightarrow> c = 45 \<or> (48 \<le> c \<and> c \<le> 57)"
  using digits_set by (auto simp: String_def split: if_splits)

lemma padStart2_set: "c \<in> set (padStart2 s) \<Longrightarrow> c = 48 \<or> c \<in> set s"
  by (auto simp: padStart2_def)

lemma String_plain: "44 \<notin> set (String n)" "34 \<notin> set (String n)" "10 \<notin> set (String n)"
  using String_set [of _ n] by fastforce+

lemma numString_plain: "44 \<notin> set (numString n)" "34 \<notin> set (numString n)" "10 \<notin> set (numString n)"
  using String_plain by (cases n; simp add: numString_def lit_def)+

lemma formatDate_plain:
  "44 \<notin> set (formatDate rt d) \<and> 34 \<notin> set (formatDate rt d) \<and> 10 \<notin> set (formatDate rt d)"
  using numString_plain by (auto simp: formatDate_def Let_def lit_def dest!: padStart2_set)

lemma formatTime_plain:
  "44 \<notin> set (formatTime rt d) \<and> 34 \<notin> set (formatTime rt d) \<and> 10 \<notin> set (formatTime rt d)"
  using numString_plain by (auto simp: formatTime_def Let_def lit_def)

lemma formatDuration_plain:
  "44 \<notin> set (formatDuration ev) \<and> 34 \<notin> set (formatDuration ev) \<and> 10 \<notin> set (formatDuration ev)"
  using numString_plain by (auto simp: formatDuration_def Let_def lit_def)

lemma csvRow_fields:
  assumes "shouldIncludeEventOnDate rt ep ev (Some (start ev))"
  shows "csvRow rt ep il ev = joinComma (map escapeCSV (csvFields rt ep il ev)) @ [10]"
proof -
  have e: "escapeCSV (formatDate rt (start ev)) = formatDate rt (start ev)"
    "escapeCSV (formatTime rt (start ev)) = formatTime rt (start ev)"
    "escapeCSV (formatDuration ev) = formatDuration ev"
    using formatDate_plain [of rt "start ev"] formatTime_plain [of rt "start ev"] formatDuration_plain [of ev]
    by (simp_all add: escapeCSV_eq)
  have c: "lit '','' = [44]" by (simp add: lit_def)
  show ?thesis using assms
    by (simp add: csvRow_def csvFields_def Let_def e c)
qed

lemma csvRow_cases:
  "csvRow rt ep il ev =
     (if shouldIncludeEventOnDate rt ep ev (Some (start ev))
      then joinComma (map escapeCSV (csvFields rt ep il ev)) @ [10] else [])"
  using csvRow_fields [of rt ep ev il] by (simp add: csvRow_def Let_def)

lemma concat_included:
  "concat (map (csvRow rt ep il) evs)
     = concat (map (\<lambda>ev. joinComma (map escapeCSV (csvFields rt ep il ev)) @ [10])
         (filter (\<lambda>ev. shouldIncludeEventOnDate rt ep ev (Some (start ev))) evs))"
  by (induction evs) (simp_all add: csvRow_cases)

lemma generateCSV_fields:
  "generateCSV rt ep events opts =
     (if csv_includeLocation opts then lit ''Date,Time,Client/Pet,Service Type,Duration,Location'' @ [10]
      else lit ''Date,Time,Client/Pet,Service Type,Duration'' @ [10])
     @ concat (map (\<lambda>ev. joinComma (map escapeCSV (csvFields rt ep (csv_includeLocation opts) ev)) @ [10])
         (filter (\<lambda>ev. shouldIncludeEventOnDate rt ep ev (Some (start ev)))
            (sortEvents rt ep (filter (inRange ep (csv_workEventsOnly opts) (csv_startDate opts) (csv_endDate opts)) events)
               (csv_sortBy opts) (csv_secondarySort opts) (csv_sortOrder opts))))"
  by (simp only: generateCSV_def Let_def concat_included)

lemma smith_included: "shouldIncludeEventOnDate utcRuntime sampleProcessor smithVisit (Some (start smithVisit))"
  by (simp add: smithVisit_def ev ev_export cong: let_weak_cong)

lemma smith_fields:
  "csvFields utcRuntime sampleProcessor False smithVisit
     = [lit ''11/15/2025'', lit ''10:00 AM'', lit ''Smith, Jr.'', lit ''30-min'', lit ''30m'']"
  by (simp add: csvFields_def smithVisit_def formatDuration_def round_div_def js_rem_def ev ev_export
        cong: let_weak_cong)

text \<open>
  Claim C9.  \<open>escapeCSV\<close> wraps a value that holds a comma, a double quote or a newline in
  double quotes and doubles each double quote inside, and returns any other value
  unchanged.  The output of \<open>generateCSV\<close> is the header line followed by one row for each
  event of the range, in sorted order, that passes the check on its start date; the row is
  the fields of the event, each as \<open>escapeCSV\<close> gives it, joined by commas and closed by a
  newline.  The date, the time and the duration, which the source does not pass through
  \<open>escapeCSV\<close>, never hold one of the three characters.  Reading an escaped value back as
  a field of RFC 4180, up to the next separator, returns the value, whenever the value
  was quoted and also when a plain value holds no carriage return.
\<close>

theorem csv_escaping:
  "escapeCSV v = (if 44 \<in> set v \<or> 34 \<in> set v \<or> 10 \<in> set v then [34] @ doubleQuotes v @ [34] else v)
   \<and> generateCSV rt ep events opts =
       (if csv_includeLocation opts then lit ''Date,Time,Client/Pet,Service Type,Duration,Location'' @ [10]
        else lit ''Date,Time,Client/Pet,Service Type,Duration'' @ [10])
       @ concat (map (\<lambda>ev. joinComma (map escapeCSV (csvFields rt ep (csv_includeLocation opts) ev)) @ [10])
           (filter (\<lambda>ev. shouldIncludeEventOnDate rt ep ev (Some (start ev)))
              (sortEvents rt ep (filter (inRange ep (csv_workEventsOnly opts) (csv_startDate opts) (csv_endDate opts)) events)
                 (csv_sortBy opts) (csv_secondarySort opts) (csv_sortOrder opts))))
   \<and> csvFields rt ep il ev =
       [formatDate rt (start ev), formatTime rt (start ev), extractClientName (title ev),
        formatServiceType rt ep ev, formatDuration ev]
       @ (if il then [case location ev of Some l \<Rightarrow> l | None \<Rightarrow> []] else [])
   \<and> (shouldIncludeEventOnDate rt ep ev (Some (start ev)) \<longrightarrow>
        csvRow rt ep il ev = joinComma (map escapeCSV (csvFields rt ep il ev)) @ [10])
   \<and> ((rest = [] \<or> fieldEnd (hd rest)) \<and> (44 \<in> set v \<or> 34 \<in> set v \<or> 10 \<in> set v \<or> 13 \<notin> set v) \<longrightarrow>
        parseField (escapeCSV v @ rest) = Some (v, rest))"
  using escapeCSV_eq [of v] generateCSV_fields [of rt ep events opts] csvRow_fields [of rt ep ev il]
    field_roundtrip [of rest v] csvFields_def [of rt ep il ev]
  by blast

text \<open>
  The client \<open>Smith, Jr.\<close> is written in quotes in the output of \<open>generateCSV\<close>, and the
  field reads back as the name.
\<close>

theorem csv_escaping_witness:
  "escapeCSV (lit ''Smith, Jr.'') = [34] @ lit ''Smith, Jr.'' @ [34]
   \<and> shouldIncludeEventOnDate utcRuntime sampleProcessor smithVisit (Some (start smithVisit))
   \<and> extractClientName (title smithVisit) = lit ''Smith, Jr.''
   \<and> generateCSV utcRuntime sampleProcessor [smithVisit] allEventsCsv
       = lit ''Date,Time,Client/Pet,Service Type,Duration'' @ [10]
         @ lit ''11/15/2025,10:00 AM,'' @ [34] @ lit ''Smith, Jr.'' @ [34] @ lit '',30-min,30m'' @ [10]
   \<and> csvRow utcRuntime sampleProcessor False smithVisit
       = lit ''11/15/2025,10:00 AM,'' @ [34] @ lit ''Smith, Jr.'' @ [34] @ lit '',30-min,30m'' @ [10]
   \<and> parseField ([34] @ lit ''Smith, Jr.'' @ [34] @ lit '',30-min,30m'' @ [10])
       = Some (lit ''Smith, Jr.'', lit '',30-min,30m'' @ [10])"
proof -
  note t = csv_escaping [of "lit ''Smith, Jr.''" utcRuntime sampleProcessor "[smithVisit]" allEventsCsv False smithVisit
             "lit '',30-min,30m'' @ [10]"]
  have c: "44 \<in> set (lit ''Smith, Jr.'')" "34 \<notin> set (lit ''Smith, Jr.'')" by (simp_all add: lit_def)
  have r: "fieldEnd (hd (lit '',30-min,30m'' @ [10]))" by (simp add: lit_def fieldEnd_def)
  have o: "\<not> csv_workEventsOnly allEventsCsv" "csv_startDate allEventsCsv = None" "csv_endDate allEventsCsv = None"
    "\<not> csv_includeLocation allEventsCsv"
    by (simp_all add: allEventsCsv_def)
  from t c have 1: "escapeCSV (lit ''Smith, Jr.'') = [34] @ lit ''Smith, Jr.'' @ [34]"
    by (simp add: doubleQuotes_def lit_def)
  have f: "joinComma (map escapeCSV (csvFields utcRuntime sampleProcessor False smithVisit)) @ [10]
             = lit ''11/15/2025,10:00 AM,'' @ [34] @ lit ''Smith, Jr.'' @ [34] @ lit '',30-min,30m'' @ [10]"
    unfolding smith_fields by (simp add: escapeCSV_def rx_replace_all_def lit_def is_prefix_single canon_def)
  from t smith_included have "csvRow utcRuntime sampleProcessor False smithVisit
      = joinComma (map escapeCSV (csvFields utcRuntime sampleProcessor False smithVisit)) @ [10]"
    by blast
  then have 2: "csvRow utcRuntime sampleProcessor False smithVisit
       = lit ''11/15/2025,10:00 AM,'' @ [34] @ lit ''Smith, Jr.'' @ [34] @ lit '',30-min,30m'' @ [10]"
    by (simp only: f)
  from t have "generateCSV utcRuntime sampleProcessor [smithVisit] allEventsCsv
       = lit ''Date,Time,Client/Pet,Service Type,Duration'' @ [10]
         @ joinComma (map escapeCSV (csvFields utcRuntime sampleProcessor False smithVisit)) @ [10]"
    by (simp add: o inRange_def sortEvents_single smith_included)
  then have 5: "generateCSV utcRuntime sampleProcessor [smithVisit] allEventsCsv
       = lit ''Date,Time,Client/Pet,Service Type,Duration'' @ [10]
         @ lit ''11/15/2025,10:00 AM,'' @ [34] @ lit ''Smith, Jr.'' @ [34] @ lit '',30-min,30m'' @ [10]"
    by (simp only: f)
  from t c r have "parseField (escapeCSV (lit ''Smith, Jr.'') @ lit '',30-min,30m'' @ [10])
      = Some (lit ''Smith, Jr.'', lit '',30-min,30m'' @ [10])"
    by blast
  then have 3: "parseField ([34] @ lit ''Smith, Jr.'' @ [34] @ lit '',30-min,30m'' @ [10])
       = Some (lit ''Smith, Jr.'', lit '',30-min,30m'' @ [10])"
    unfolding 1 by simp
  have 4: "extractClientName (title smithVisit) = lit ''Smith, Jr.''"
    using smith_fields by (simp add: csvFields_def)
  show ?thesis using 1 2 3 4 5 smith_included by blast
qed

section \<open>Removing parenthesised groups\<close>

lemma canon_False [simp]: "canon False c = c"
  by (simp add: canon_def)

lemma rmatch_Str_fun: "rmatch ic (Str cs) = str_match ic cs"
  by (rule ext) simp

lemma paren_star:
  "concat (map (str_match False [41]) (star_match False (NoneOf [41]) l s)) =
     (if 41 \<in> set s then [(41 # rev (takeWhile (\<lambda>c. c \<noteq> 41) s) @ l, tl (dropWhile (\<lambda>c. c \<noteq> 41) s))] else [])"
proof (induction s arbitrary: l)
  case Nil
  show ?case by simp
next
  case (Cons x s)
  show ?case using Cons [of "x # l"] by auto
qed

lemma paren_match:
  "rmatch False parenGroup (l, s) =
     (case s of [] \<Rightarrow> []
      | x # s' \<Rightarrow> if x = 40 \<and> 41 \<in> set s'
                  then [(41 # rev (takeWhile (\<lambda>c. c \<noteq> 41) s') @ 40 # l, tl (dropWhile (\<lambda>c. c \<noteq> 41) s'))] else [])"
proof (cases s)
  case Nil
  then show ?thesis by (simp add: parenGroup_def)
next
  case (Cons x s')
  show ?thesis
  proof (cases "x = 40")
    case True
    then show ?thesis using paren_star [of "40 # l" s'] by (simp add: parenGroup_def Cons rmatch_Str_fun)
  next
    case False
    then show ?thesis by (auto simp: parenGroup_def Cons)
  qed
qed

lemma replace_skip:
  "k \<le> length s \<Longrightarrow> rx_replace_from ic r rep l k s = rx_replace_from ic r rep (rev (take k s) @ l) 0 (drop k s)"
proof (induction s arbitrary: l k)
  case Nil
  then show ?case by simp
next
  case (Cons x s)
  show ?case
  proof (cases k)
    case 0
    then show ?thesis by simp
  next
    case (Suc k')
    with Cons.prems have "k' \<le> length s" by simp
    from Cons.IH [OF this, of "x # l"] Suc show ?thesis by simp
  qed
qed

lemma drop_past_paren:
  assumes "41 \<in> set s"
  shows "drop (length s - length (tl (dropWhile (\<lambda>c. c \<noteq> 41) s))) s = tl (dropWhile (\<lambda>c. c \<noteq> 41) s)"
    and "length s - length (tl (dropWhile (\<lambda>c. c \<noteq> 41) s)) \<le> length s"
    and "0 < length s - length (tl (dropWhile (\<lambda>c. c \<noteq> 41) s))"
proof -
  let ?tw = "takeWhile (\<lambda>c. c \<noteq> 41) s" and ?dw = "dropWhile (\<lambda>c. c \<noteq> 41) s"
  from assms have ne: "?dw \<noteq> []" by (simp add: dropWhile_eq_Nil_conv) 
  then obtain y ys where dw: "?dw = y # ys" by (cases ?dw) auto
  have s: "s = ?tw @ y # ys" using takeWhile_dropWhile_id [of "\<lambda>c. c \<noteq> 41" s] dw by simp
  have len: "length s - length (tl ?dw) = Suc (length ?tw)"
    using arg_cong [OF s, of length] dw by simp
  show "drop (length s - length (tl ?dw)) s = tl ?dw"
    unfolding len by (subst (2) s) (simp add: dw)
  show "length s - length (tl ?dw) \<le> length s" by simp
  show "0 < length s - length (tl ?dw)" unfolding len by simp
qed

lemma replace_parens_from: "rx_replace_from False parenGroup [] l 0 s = strip_parens s"
proof (induction s arbitrary: l rule: strip_parens.induct)
  case 1
  show ?case by (simp add: paren_match)
next
  case (2 x s)
  show ?case
  proof (cases "x = 40 \<and> 41 \<in> set s")
    case True
    let ?rest = "tl (dropWhile (\<lambda>c. c \<noteq> 41) s)"
    let ?n = "length s - length ?rest"
    from True have m: "41 \<in> set s" by simp
    have "rx_replace_from False parenGroup [] l 0 (x # s) = rx_replace_from False parenGroup [] (x # l) (?n) s"
      using True drop_past_paren(3) [OF m] by (simp add: paren_match Let_def Suc_diff_le)
    also have "\<dots> = rx_replace_from False parenGroup [] (rev (take ?n s) @ x # l) 0 (drop ?n s)"
      using replace_skip [OF drop_past_paren(2) [OF m]] by simp
    also have "\<dots> = strip_parens ?rest"
      unfolding drop_past_paren(1) [OF m] using "2.IH"(1) [OF True] by simp
    finally have a: "rx_replace_from False parenGroup [] l 0 (x # s) = strip_parens ?rest" .
    have b: "strip_parens (x # s) = strip_parens ?rest" using True by (auto simp: strip_parens.simps(2))
    show ?thesis unfolding a b ..
  next
    case False
    then have a: "rx_replace_from False parenGroup [] l 0 (x # s) = x # rx_replace_from False parenGroup [] (x # l) 0 s"
      by (auto simp: paren_match)
    have b: "strip_parens (x # s) = x # strip_parens s" using False by (auto simp: strip_parens.simps(2))
    show ?thesis unfolding a b using "2.IH"(2) [OF False] by simp
  qed
qed

lemma replace_parens: "rx_replace_all False parenGroup [] s = strip_parens s"
  by (simp add: rx_replace_all_def replace_parens_from)


lemma strip_parens_cons_other: "x \<noteq> 40 \<Longrightarrow> strip_parens (x # s) = x # strip_parens s"
  by (simp add: strip_parens.simps(2))

lemma strip_prefix: "40 \<notin> set w \<Longrightarrow> strip_parens (w @ s) = w @ strip_parens s"
  by (induction w) (auto simp: strip_parens_cons_other)

lemma dropWhile_append_keep:
  "41 \<in> set s \<Longrightarrow> dropWhile (\<lambda>c. c \<noteq> 41) (s @ w) = dropWhile (\<lambda>c. c \<noteq> 41) s @ w"
  by (induction s) auto

lemma tl_dropWhile_append_keep:
  "41 \<in> set s \<Longrightarrow> tl (dropWhile (\<lambda>c. c \<noteq> 41) (s @ w)) = tl (dropWhile (\<lambda>c. c \<noteq> 41) s) @ w"
proof -
  assume a: "41 \<in> set s"
  then have "dropWhile (\<lambda>c. c \<noteq> 41) s \<noteq> []" by (simp add: dropWhile_eq_Nil_conv)
  then show ?thesis by (simp add: dropWhile_append_keep [OF a])
qed

lemma strip_suffix:
  "40 \<notin> set w \<Longrightarrow> 41 \<notin> set w \<Longrightarrow> strip_parens (s @ w) = strip_parens s @ w"
proof (induction s rule: strip_parens.induct)
  case 1
  then show ?case using strip_prefix [of w "[]"] by simp
next
  case (2 x s)
  show ?case
  proof (cases "x = 40 \<and> 41 \<in> set s")
    case True
    then have a: "strip_parens (x # s) = strip_parens (tl (dropWhile (\<lambda>c. c \<noteq> 41) s))"
      by (auto simp: strip_parens.simps(2))
    from True "2.prems" have b: "strip_parens ((x # s) @ w) = strip_parens (tl (dropWhile (\<lambda>c. c \<noteq> 41) (s @ w)))"
      by (auto simp: strip_parens.simps(2))
    show ?thesis unfolding a b using True "2.IH"(1) [OF True "2.prems"] by (simp add: tl_dropWhile_append_keep)
  next
    case False
    then have a: "strip_parens (x # s) = x # strip_parens s"
      by (auto simp: strip_parens.simps(2))
    from False "2.prems" have b: "strip_parens ((x # s) @ w) = x # strip_parens (s @ w)"
      by (auto simp: strip_parens.simps(2))
    show ?thesis unfolding a b using "2.IH"(2) [OF False "2.prems"] by simp
  qed
qed

lemma set_strip_parens: "set (strip_parens s) \<subseteq> set s"
proof (induction s rule: strip_parens.induct)
  case 1
  show ?case by simp
next
  case (2 x s)
  show ?case
  proof (cases "x = 40 \<and> 41 \<in> set s")
    case True
    then have a: "strip_parens (x # s) = strip_parens (tl (dropWhile (\<lambda>c. c \<noteq> 41) s))"
      by (auto simp: strip_parens.simps(2))
    have tl_sub: "set (tl ys) \<subseteq> set ys" for ys :: "nat list"
      by (cases ys) auto
    have "set (tl (dropWhile (\<lambda>c. c \<noteq> 41) s)) \<subseteq> set (dropWhile (\<lambda>c. c \<noteq> 41) s)"
      by (rule tl_sub)
    then have "set (tl (dropWhile (\<lambda>c. c \<noteq> 41) s)) \<subseteq> set s"
      by (auto dest: set_dropWhileD)
    then show ?thesis unfolding a using "2.IH"(1) [OF True] by auto
  next
    case False
    then have a: "strip_parens (x # s) = x # strip_parens s"
      by (auto simp: strip_parens.simps(2))
    show ?thesis unfolding a using "2.IH"(2) [OF False] by auto
  qed
qed

lemma strip_parens_idem: "strip_parens (strip_parens s) = strip_parens s"
proof (induction s rule: strip_parens.induct)
  case 1
  show ?case by simp
next
  case (2 x s)
  show ?case
  proof (cases "x = 40 \<and> 41 \<in> set s")
    case True
    then have a: "strip_parens (x # s) = strip_parens (tl (dropWhile (\<lambda>c. c \<noteq> 41) s))"
      by (auto simp: strip_parens.simps(2))
    show ?thesis unfolding a using "2.IH"(1) [OF True] .
  next
    case False
    then have a: "strip_parens (x # s) = x # strip_parens s"
      by (auto simp: strip_parens.simps(2))
    from False set_strip_parens [of s] have "\<not> (x = 40 \<and> 41 \<in> set (strip_parens s))" by auto
    then have "strip_parens (x # strip_parens s) = x # strip_parens (strip_parens s)"
      by (auto simp: strip_parens.simps(2))
    then show ?thesis unfolding a using "2.IH"(2) [OF False] by simp
  qed
qed

lemma trim_decomp:
  "\<exists>a b. s = a @ trim s @ b \<and> (\<forall>c \<in> set a. is_space c) \<and> (\<forall>c \<in> set b. is_space c)"
proof -
  let ?a = "takeWhile is_space s" and ?u = "dropWhile is_space s"
  let ?b = "rev (takeWhile is_space (rev ?u))"
  have "rev (rev ?u) = rev (takeWhile is_space (rev ?u) @ dropWhile is_space (rev ?u))"
    by (simp only: takeWhile_dropWhile_id)
  then have "?u = rev (dropWhile is_space (rev ?u)) @ rev (takeWhile is_space (rev ?u))"
    by (simp only: rev_rev_ident rev_append)
  then have u: "?u = trim s @ ?b" by (simp only: trim_def)
  have "s = ?a @ ?u" by simp
  with u have "s = ?a @ trim s @ ?b" by simp
  moreover have "\<forall>c \<in> set ?a. is_space c" by (auto dest: set_takeWhileD)
  moreover have "\<forall>c \<in> set ?b. is_space c" by (auto dest: set_takeWhileD)
  ultimately show ?thesis by blast
qed

lemma trim_pad_left: "\<forall>c \<in> set a. is_space c \<Longrightarrow> trim (a @ s) = trim s"
  by (simp add: trim_def dropWhile_append2)

lemma trim_pad_right:
  assumes "\<forall>c \<in> set b. is_space c"
  shows "trim (s @ b) = trim s"
proof (cases "\<forall>c \<in> set s. is_space c")
  case True
  with assms have "dropWhile is_space (s @ b) = []" "dropWhile is_space s = []" by simp_all
  then show ?thesis by (simp only: trim_def rev.simps dropWhile.simps)
next
  case False
  then have 1: "dropWhile is_space (s @ b) = dropWhile is_space s @ b"
    by (auto simp: dropWhile_append1)
  have 2: "dropWhile is_space (rev b @ ys) = dropWhile is_space ys" for ys
    using assms by (intro dropWhile_append2) auto
  show ?thesis by (simp add: trim_def 1 2)
qed

lemma space_not_paren: "\<forall>c \<in> set a. is_space c \<Longrightarrow> 40 \<notin> set a \<and> 41 \<notin> set a"
  by (auto simp: is_space_def)

lemma trim_strip_trim: "trim (strip_parens (trim s)) = trim (strip_parens s)"
proof -
  from trim_decomp [of s] obtain a b where
    s: "s = a @ trim s @ b" and a: "\<forall>c \<in> set a. is_space c" and b: "\<forall>c \<in> set b. is_space c" by blast
  have "strip_parens s = strip_parens (a @ (trim s @ b))" using s by simp
  also have "\<dots> = a @ strip_parens (trim s) @ b"
    using space_not_paren [OF a] space_not_paren [OF b] by (simp add: strip_prefix strip_suffix)
  finally show ?thesis using a b by (simp add: trim_pad_left trim_pad_right)
qed


lemma cleanTitle_eq: "cleanTitle (Some x) = trim (strip_parens x)"
  by (simp add: cleanTitle_def replace_parens trim_def)

lemma personal_trim_iff: "isDefinitelyPersonal (Some (trim t)) = isDefinitelyPersonal (Some t)"
proof (cases "trim t = []")
  case True
  then show ?thesis using personal_empty by (simp add: isDefinitelyPersonal_def)
next
  case False
  then have "t \<noteq> []" by (auto simp: trim_def)
  with False show ?thesis by (simp add: isDefinitelyPersonal_def trim_idem)
qed

lemma no_work_pattern_empty: "\<not> anyWorkPattern []"
  by (simp add: anyWorkPattern_def ev)

lemma isWorkEvent_eq:
  "isWorkEvent (TitleArg t) = (\<not> isDefinitelyPersonal (Some t) \<and> anyWorkPattern (trim (strip_parens t)))"
proof (cases "t = []")
  case True
  then show ?thesis using no_work_pattern_empty by (simp add: isWorkEvent_def trim_def)
next
  case False
  then have "isWorkEvent (TitleArg t)
      = (\<not> isDefinitelyPersonal (Some (trim t)) \<and> anyWorkPattern (cleanTitle (Some (trim t))))"
    by (simp add: isWorkEvent_def anyWorkPattern_def Let_def)
  then show ?thesis by (simp add: personal_trim_iff cleanTitle_eq trim_strip_trim)
qed


subsection \<open>The cleaning of the mock processor\<close>

lemma space_cc: "cc_match False Space = is_space"
  by (rule ext) simp

lemma not_close_cc: "cc_match False (NoneOf [41]) = (\<lambda>c. c \<noteq> 41)"
  by (rule ext) simp

lemma close_then_space:
  "rmatch False (Seq (Str [41]) (StarC Space)) (l, s) =
     (case s of [] \<Rightarrow> [] | x # s' \<Rightarrow> if x = 41 then star_match False Space (41 # l) s' else [])"
  by (cases s) auto

lemma paren_star_space:
  "concat (map (rmatch False (Seq (Str [41]) (StarC Space))) (star_match False (NoneOf [41]) l s)) =
     (if 41 \<in> set s
      then star_match False Space (41 # rev (takeWhile (\<lambda>c. c \<noteq> 41) s) @ l) (tl (dropWhile (\<lambda>c. c \<noteq> 41) s))
      else [])"
proof (induction s arbitrary: l)
  case Nil
  show ?case by (simp add: close_then_space del: rmatch.simps)
next
  case (Cons x s)
  show ?case using Cons [of "x # l"] by (auto simp: close_then_space simp del: rmatch.simps)
qed

lemma group_match:
  "rmatch False (Seq (Str [40]) (Seq (StarC (NoneOf [41])) (Seq (Str [41]) (StarC Space)))) (l, s) =
     (case s of [] \<Rightarrow> []
      | x # s' \<Rightarrow> if x = 40 \<and> 41 \<in> set s'
                  then star_match False Space (41 # rev (takeWhile (\<lambda>c. c \<noteq> 41) s') @ 40 # l)
                         (tl (dropWhile (\<lambda>c. c \<noteq> 41) s'))
                  else [])"
proof (cases s)
  case Nil
  then show ?thesis by simp
next
  case (Cons x s')
  have "rmatch False (Seq (Str [40]) (Seq (StarC (NoneOf [41])) (Seq (Str [41]) (StarC Space)))) (l, x # s')
          = (if x = 40 then concat (map (rmatch False (Seq (Str [41]) (StarC Space)))
                                     (star_match False (NoneOf [41]) (40 # l) s')) else [])"
    by simp
  then show ?thesis unfolding Cons paren_star_space by simp
qed

lemma spaces_then_group:
  "concat (map (rmatch False (Seq (Str [40]) (Seq (StarC (NoneOf [41])) (Seq (Str [41]) (StarC Space)))))
               (star_match False Space l s))
     = rmatch False (Seq (Str [40]) (Seq (StarC (NoneOf [41])) (Seq (Str [41]) (StarC Space))))
         (rev (takeWhile is_space s) @ l, dropWhile is_space s)"
proof (induction s arbitrary: l)
  case Nil
  show ?case by simp
next
  case (Cons x s)
  show ?case
  proof (cases "is_space x")
    case True
    then have "x \<noteq> 40" by (auto simp: is_space_def)
    then have e: "rmatch False (Seq (Str [40]) (Seq (StarC (NoneOf [41])) (Seq (Str [41]) (StarC Space)))) (l, x # s) = []"
      unfolding group_match by simp
    show ?thesis using True Cons [of "x # l"] e by (simp del: rmatch.simps)
  next
    case False
    then show ?thesis by (simp del: rmatch.simps)
  qed
qed

lemma spaced_match:
  "rmatch False spacedParenGroup (l, s) =
     (case dropWhile is_space s of [] \<Rightarrow> []
      | x # r \<Rightarrow> if x = 40 \<and> 41 \<in> set r
                 then star_match False Space (41 # rev (takeWhile (\<lambda>c. c \<noteq> 41) r) @ 40 # rev (takeWhile is_space s) @ l)
                        (tl (dropWhile (\<lambda>c. c \<noteq> 41) r))
                 else [])"
proof -
  have "rmatch False spacedParenGroup (l, s)
          = concat (map (rmatch False (Seq (Str [40]) (Seq (StarC (NoneOf [41])) (Seq (Str [41]) (StarC Space)))))
               (star_match False Space l s))"
    by (simp add: spacedParenGroup_def)
  then show ?thesis unfolding spaces_then_group group_match .
qed

lemma groupAhead_iff: "groupAhead s = (\<exists>r. dropWhile is_space s = 40 # r \<and> 41 \<in> set r)"
proof (cases "dropWhile is_space s")
  case Nil
  show ?thesis unfolding groupAhead_def Nil by simp
next
  case (Cons x r)
  show ?thesis unfolding groupAhead_def Cons by auto
qed

lemma spaced_no_match:
  assumes "\<not> groupAhead s"
  shows "rmatch False spacedParenGroup (l, s) = []"
proof (cases "dropWhile is_space s")
  case Nil
  show ?thesis unfolding spaced_match Nil by simp
next
  case (Cons x r)
  from assms have "\<not> (x = 40 \<and> 41 \<in> set r)" unfolding groupAhead_iff Cons by simp
  then show ?thesis unfolding spaced_match Cons by auto
qed

lemma spaced_first_match:
  assumes "groupAhead s"
  shows "\<exists>e es. rmatch False spacedParenGroup (l, s) = e # es \<and> snd e = afterGroup s"
proof -
  from assms obtain r where r: "dropWhile is_space s = 40 # r" "41 \<in> set r"
    unfolding groupAhead_iff by blast
  let ?L = "41 # rev (takeWhile (\<lambda>c. c \<noteq> 41) r) @ 40 # rev (takeWhile is_space s) @ l"
  let ?t = "tl (dropWhile (\<lambda>c. c \<noteq> 41) r)"
  have m: "rmatch False spacedParenGroup (l, s) = star_match False Space ?L ?t"
    unfolding spaced_match r(1) using r(2) by simp
  from star_match_hd [of False Space ?L ?t]
  obtain es where "star_match False Space ?L ?t = (rev (takeWhile is_space ?t) @ ?L, dropWhile is_space ?t) # es"
    unfolding space_cc by (cases "star_match False Space ?L ?t") auto
  moreover have "afterGroup s = dropWhile is_space ?t" unfolding afterGroup_def r(1) by simp
  ultimately show ?thesis using m by simp
qed

lemma suffix_dropWhile: "\<exists>p. u = p @ dropWhile P u"
  using takeWhile_dropWhile_id [of P u] by metis

lemma suffix_tl: "\<exists>p. u = p @ tl u"
  by (cases u) auto

lemma afterGroup_suffix: "\<exists>p. u = p @ afterGroup u"
proof -
  obtain p1 where 1: "u = p1 @ dropWhile is_space u" using suffix_dropWhile by blast
  obtain p2 where 2: "dropWhile is_space u = p2 @ tl (dropWhile is_space u)" using suffix_tl by blast
  let ?a = "tl (dropWhile is_space u)"
  obtain p3 where 3: "?a = p3 @ dropWhile (\<lambda>c. c \<noteq> 41) ?a" using suffix_dropWhile by blast
  let ?b = "dropWhile (\<lambda>c. c \<noteq> 41) ?a"
  obtain p4 where 4: "?b = p4 @ tl ?b" using suffix_tl by blast
  obtain p5 where 5: "tl ?b = p5 @ dropWhile is_space (tl ?b)" using suffix_dropWhile by blast
  have "u = (p1 @ p2 @ p3 @ p4 @ p5) @ dropWhile is_space (tl ?b)"
    using 1 2 3 4 5 by (metis append_assoc)
  then show ?thesis unfolding afterGroup_def by blast
qed

lemma afterGroup_shorter:
  assumes "groupAhead u"
  shows "length (afterGroup u) < length u"
proof -
  let ?r = "dropWhile is_space u"
  from assms have ne: "?r \<noteq> []" unfolding groupAhead_iff by (metis list.distinct(1))
  have "length (afterGroup u) \<le> length (tl (dropWhile (\<lambda>c. c \<noteq> 41) (tl ?r)))"
    unfolding afterGroup_def by (rule length_dropWhile_le)
  also have "\<dots> \<le> length (dropWhile (\<lambda>c. c \<noteq> 41) (tl ?r))" by simp
  also have "\<dots> \<le> length (tl ?r)" by (rule length_dropWhile_le)
  also have "\<dots> < length ?r" using ne by (cases ?r) simp_all
  also have "\<dots> \<le> length u" by (rule length_dropWhile_le)
  finally show ?thesis .
qed

lemma replace_spaced_from: "rx_replace_from False spacedParenGroup [32] l 0 s = strip_spaced s"
proof (induction s arbitrary: l rule: strip_spaced.induct)
  case 1
  have "\<not> groupAhead []" by (simp add: groupAhead_def)
  then show ?case by (simp add: spaced_no_match)
next
  case (2 x s)
  show ?case
  proof (cases "groupAhead (x # s)")
    case True
    let ?rest = "afterGroup (x # s)"
    from spaced_first_match [OF True, of l] obtain e es where
      m: "rmatch False spacedParenGroup (l, x # s) = e # es" and e: "snd e = ?rest" by blast
    from afterGroup_suffix [of "x # s"] obtain p where p: "x # s = p @ ?rest" by blast
    from afterGroup_shorter [OF True] p have "p \<noteq> []" by auto
    with p obtain p' where p': "p = x # p'" "s = p' @ ?rest" by (cases p) auto
    have ls: "length s = length p' + length ?rest" using arg_cong [OF p'(2), of length] by simp
    have len: "Suc (length s) - length ?rest = Suc (length p')" using ls by simp
    have "rx_replace_from False spacedParenGroup [32] l 0 (x # s)
            = 32 # rx_replace_from False spacedParenGroup [32] (x # l) (length p') s"
      using m e len by (simp add: Let_def del: rmatch.simps)
    also have "rx_replace_from False spacedParenGroup [32] (x # l) (length p') s
            = rx_replace_from False spacedParenGroup [32] (rev (take (length p') s) @ x # l) 0 (drop (length p') s)"
      by (rule replace_skip) (simp add: ls)
    also have "drop (length p') s = ?rest" by (metis p'(2) append_eq_conv_conj)
    finally have a: "rx_replace_from False spacedParenGroup [32] l 0 (x # s)
            = 32 # rx_replace_from False spacedParenGroup [32] (rev (take (length p') s) @ x # l) 0 ?rest" .
    have b: "strip_spaced (x # s) = 32 # strip_spaced ?rest" using True by (simp add: strip_spaced.simps(2))
    show ?thesis unfolding a b using "2.IH"(1) [OF True] by simp
  next
    case False
    then have a: "rx_replace_from False spacedParenGroup [32] l 0 (x # s)
                    = x # rx_replace_from False spacedParenGroup [32] (x # l) 0 s"
      by (simp add: spaced_no_match del: rmatch.simps)
    have b: "strip_spaced (x # s) = x # strip_spaced s" using False by (simp add: strip_spaced.simps(2))
    show ?thesis unfolding a b using "2.IH"(2) [OF False] by simp
  qed
qed

lemma replace_spaced: "rx_replace_all False spacedParenGroup (lit '' '') s = strip_spaced s"
proof -
  have "lit '' '' = [32]" by (simp add: lit_def)
  then show ?thesis by (simp add: rx_replace_all_def replace_spaced_from)
qed

lemma set_afterGroup: "set (afterGroup u) \<subseteq> set u"
  using afterGroup_suffix [of u] by (metis set_append sup_ge2)

lemma set_strip_spaced: "set (strip_spaced s) \<subseteq> insert 32 (set s)"
proof (induction s rule: strip_spaced.induct)
  case 1
  show ?case by simp
next
  case (2 x s)
  show ?case
  proof (cases "groupAhead (x # s)")
    case True
    then have a: "strip_spaced (x # s) = 32 # strip_spaced (afterGroup (x # s))"
      by (simp add: strip_spaced.simps(2))
    show ?thesis unfolding a using "2.IH"(1) [OF True] set_afterGroup [of "x # s"] by auto
  next
    case False
    then have a: "strip_spaced (x # s) = x # strip_spaced s" by (simp add: strip_spaced.simps(2))
    show ?thesis unfolding a using "2.IH"(2) [OF False] by auto
  qed
qed

lemma noGroup_suffix: "noGroup (p @ s) \<Longrightarrow> noGroup s"
  by (induction p) simp_all

lemma noGroup_not_ahead:
  assumes "noGroup s"
  shows "\<not> groupAhead s"
proof
  assume "groupAhead s"
  then obtain r where r: "dropWhile is_space s = 40 # r" "41 \<in> set r"
    unfolding groupAhead_iff by blast
  have "s = takeWhile is_space s @ 40 # r" using takeWhile_dropWhile_id [of is_space s] r(1) by simp
  with assms have "noGroup (40 # r)" using noGroup_suffix by metis
  with r(2) show False by simp
qed

lemma noGroup_id: "noGroup s \<Longrightarrow> strip_spaced s = s"
proof (induction s)
  case Nil
  show ?case by simp
next
  case (Cons x s)
  from noGroup_not_ahead [OF Cons.prems] have "strip_spaced (x # s) = x # strip_spaced s"
    by (simp add: strip_spaced.simps(2))
  with Cons show ?case by simp
qed

lemma noGroup_strip: "noGroup (strip_spaced s)"
proof (induction s rule: strip_spaced.induct)
  case 1
  show ?case by simp
next
  case (2 x s)
  show ?case
  proof (cases "groupAhead (x # s)")
    case True
    then have a: "strip_spaced (x # s) = 32 # strip_spaced (afterGroup (x # s))"
      by (simp add: strip_spaced.simps(2))
    show ?thesis unfolding a using "2.IH"(1) [OF True] by simp
  next
    case False
    then have a: "strip_spaced (x # s) = x # strip_spaced s" by (simp add: strip_spaced.simps(2))
    have "\<not> (x = 40 \<and> 41 \<in> set (strip_spaced s))"
    proof
      assume h: "x = 40 \<and> 41 \<in> set (strip_spaced s)"
      then have "41 \<in> set s" using set_strip_spaced [of s] by auto
      moreover have "\<not> is_space 40" by (simp add: is_space_def)
      ultimately have "groupAhead (x # s)" using h by (simp add: groupAhead_iff)
      with False show False by simp
    qed
    then show ?thesis unfolding a using "2.IH"(2) [OF False] by simp
  qed
qed

lemma strip_spaced_idem: "strip_spaced (strip_spaced s) = strip_spaced s"
  using noGroup_strip by (rule noGroup_id)

lemma strip_spaced_empty: "(strip_spaced s = []) = (s = [])"
  by (cases s) (simp_all add: strip_spaced.simps(2))

lemma processor_isWorkEvent_eq:
  "processor_isWorkEvent (Some t) =
     (t \<noteq> [] \<and> \<not> processor_isPersonalEvent (Some t) \<and> anyMockPattern (trim (strip_spaced t)))"
  by (simp add: processor_isWorkEvent_def replace_spaced anyMockPattern_def Let_def)

text \<open>
  Claim C5 says that removing the parenthesised groups of a title never changes its
  classification.  In the class of the analytics tests the personal patterns are tested
  on the title as it is, the work patterns on the title without its groups:
  \<open>Pixel 30 (lunch)\<close> is personal through the word inside the parentheses, and \<open>Pixel 30\<close>
  is work.  The mock processor of the filtering tests does not remove a group, it puts one
  space in its place: \<open>M(x)G\<close> is cleaned to \<open>M G\<close> and is no work event, while \<open>MG\<close> is one,
  and neither title is personal.
\<close>

theorem parenthetical_invariance_counterexample:
  "isWorkEvent (TitleArg (lit ''Pixel 30 (lunch)''))
     \<noteq> isWorkEvent (TitleArg (rx_replace_all False parenGroup [] (lit ''Pixel 30 (lunch)'')))
   \<and> rx_replace_all False parenGroup [] (lit ''M(x)G'') = lit ''MG''
   \<and> \<not> processor_isPersonalEvent (Some (lit ''M(x)G''))
   \<and> \<not> processor_isPersonalEvent (Some (lit ''MG''))
   \<and> \<not> processor_isWorkEvent (Some (lit ''M(x)G''))
   \<and> processor_isWorkEvent (Some (lit ''MG''))"
  by (simp add: ev)

text \<open>
  Claim C5, amended.  In the class of the analytics tests, for every title that the
  personal patterns classify as they classify the title without its parenthesised
  groups, \<open>isWorkEvent\<close> gives the same answer for both.  In the mock processor of the
  filtering tests, for every title that the personal patterns classify as they classify
  the title in which each group, with the white space around it, is replaced by one
  space, \<open>isWorkEvent\<close> gives the same answer for both.  In particular
  \<open>isWorkEvent("Pixel 30 (forgot to cancel)")\<close> equals \<open>isWorkEvent("Pixel 30")\<close> in both.
\<close>

theorem parenthetical_invariance:
  "(isDefinitelyPersonal (Some t) = isDefinitelyPersonal (Some (rx_replace_all False parenGroup [] t)) \<longrightarrow>
      isWorkEvent (TitleArg t) = isWorkEvent (TitleArg (rx_replace_all False parenGroup [] t)))
   \<and> (processor_isPersonalEvent (Some t)
        = processor_isPersonalEvent (Some (rx_replace_all False spacedParenGroup (lit '' '') t)) \<longrightarrow>
      processor_isWorkEvent (Some t)
        = processor_isWorkEvent (Some (rx_replace_all False spacedParenGroup (lit '' '') t)))
   \<and> isWorkEvent (TitleArg (lit ''Pixel 30 (forgot to cancel)'')) = isWorkEvent (TitleArg (lit ''Pixel 30''))
   \<and> processor_isWorkEvent (Some (lit ''Pixel 30 (forgot to cancel)'')) = processor_isWorkEvent (Some (lit ''Pixel 30''))"
proof (intro conjI impI)
  assume "isDefinitelyPersonal (Some t) = isDefinitelyPersonal (Some (rx_replace_all False parenGroup [] t))"
  then show "isWorkEvent (TitleArg t) = isWorkEvent (TitleArg (rx_replace_all False parenGroup [] t))"
    by (simp add: isWorkEvent_eq replace_parens strip_parens_idem)
next
  assume "processor_isPersonalEvent (Some t)
        = processor_isPersonalEvent (Some (rx_replace_all False spacedParenGroup (lit '' '') t))"
  then show "processor_isWorkEvent (Some t)
        = processor_isWorkEvent (Some (rx_replace_all False spacedParenGroup (lit '' '') t))"
    by (simp add: processor_isWorkEvent_eq replace_spaced strip_spaced_idem strip_spaced_empty)
next
  show "isWorkEvent (TitleArg (lit ''Pixel 30 (forgot to cancel)'')) = isWorkEvent (TitleArg (lit ''Pixel 30''))"
    by (simp add: ev)
next
  show "processor_isWorkEvent (Some (lit ''Pixel 30 (forgot to cancel)'')) = processor_isWorkEvent (Some (lit ''Pixel 30''))"
    by (simp add: ev)
qed

text \<open>
  The title \<open>Pixel 30 (forgot to cancel)\<close> is not personal with or without its group, and
  it is a work event in both classifiers, as the cleaned titles are.
\<close>

theorem parenthetical_invariance_witness:
  "isDefinitelyPersonal (Some (lit ''Pixel 30 (forgot to cancel)''))
     = isDefinitelyPersonal (Some (rx_replace_all False parenGroup [] (lit ''Pixel 30 (forgot to cancel)'')))
   \<and> rx_replace_all False parenGroup [] (lit ''Pixel 30 (forgot to cancel)'') = lit ''Pixel 30 ''
   \<and> isWorkEvent (TitleArg (lit ''Pixel 30 (forgot to cancel)''))
   \<and> isWorkEvent (TitleArg (lit ''Pixel 30 ''))
   \<and> processor_isPersonalEvent (Some (lit ''Pixel 30 (forgot to cancel)''))
     = processor_isPersonalEvent (Some (rx_replace_all False spacedParenGroup (lit '' '') (lit ''Pixel 30 (forgot to cancel)'')))
   \<and> rx_replace_all False spacedParenGroup (lit '' '') (lit ''Pixel 30 (forgot to cancel)'') = lit ''Pixel 30 ''
   \<and> processor_isWorkEvent (Some (lit ''Pixel 30 (forgot to cancel)''))
   \<and> processor_isWorkEvent (Some (lit ''Pixel 30 ''))"
proof -
  have r: "rx_replace_all False parenGroup [] (lit ''Pixel 30 (forgot to cancel)'') = lit ''Pixel 30 ''"
    by (simp add: ev)
  have p: "isDefinitelyPersonal (Some (lit ''Pixel 30 (forgot to cancel)''))
     = isDefinitelyPersonal (Some (rx_replace_all False parenGroup [] (lit ''Pixel 30 (forgot to cancel)'')))"
    by (simp add: ev)
  have w: "isWorkEvent (TitleArg (lit ''Pixel 30 (forgot to cancel)''))" by (simp add: ev)
  have r': "rx_replace_all False spacedParenGroup (lit '' '') (lit ''Pixel 30 (forgot to cancel)'') = lit ''Pixel 30 ''"
    by (simp add: ev)
  have p': "processor_isPersonalEvent (Some (lit ''Pixel 30 (forgot to cancel)''))
     = processor_isPersonalEvent (Some (rx_replace_all False spacedParenGroup (lit '' '') (lit ''Pixel 30 (forgot to cancel)'')))"
    by (simp add: ev)
  have w': "processor_isWorkEvent (Some (lit ''Pixel 30 (forgot to cancel)''))" by (simp add: ev)
  note t = parenthetical_invariance [of "lit ''Pixel 30 (forgot to cancel)''"]
  from t p w
  have "isWorkEvent (TitleArg (rx_replace_all False parenGroup [] (lit ''Pixel 30 (forgot to cancel)'')))"
    by blast
  then have a: "isWorkEvent (TitleArg (lit ''Pixel 30 ''))" unfolding r .
  from t p' w'
  have "processor_isWorkEvent (Some (rx_replace_all False spacedParenGroup (lit '' '') (lit ''Pixel 30 (forgot to cancel)'')))"
    by blast
  then have b: "processor_isWorkEvent (Some (lit ''Pixel 30 ''))" unfolding r' .
  show ?thesis by (intro conjI) (fact p, fact r, fact w, fact a, fact p', fact r', fact w', fact b)
qed

section \<open>The client name\<close>











end
